theory Spec2Isabelle
  imports Main "HOL-Library.Word"
begin

section \<open>The dispatch tracker of src/core/tracker.h\<close>

text \<open>
  The class \<open>Tracker\<close> keeps one \<open>entry_t\<close> per dispatch in flight. The model is a
  state record holding the members of the class, the objects it allocates, the memory of
  the HSA signals it touches, and a trace: the list, in program order, of the calls into
  the HSA runtime, the mutex and list operations, the writes and atomic accesses of the
  entry fields and the calls of the user handler. What the runtime answers is a parameter
  (\<open>runtime\<close>), so every theorem holds for every behaviour of the runtime.
\<close>

subsection \<open>Types of the HSA headers\<close>

type_synonym addr = "64 word"
type_synonym timestamp_t = "64 word"
type_synonym hsa_signal_value_t = "64 word"
type_synonym hsa_status_t = nat

abbreviation (input) HSA_STATUS_SUCCESS :: hsa_status_t where
  "HSA_STATUS_SUCCESS \<equiv> 0"

abbreviation (input) HSA_STATUS_ERROR :: hsa_status_t where
  "HSA_STATUS_ERROR \<equiv> 4096"

datatype hsa_signal_t = hsa_signal_t (handle: "64 word")

datatype hsa_agent_t = hsa_agent_t (agent_handle: "64 word")

datatype hsa_signal_condition_t =
    HSA_SIGNAL_CONDITION_EQ
  | HSA_SIGNAL_CONDITION_NE
  | HSA_SIGNAL_CONDITION_LT
  | HSA_SIGNAL_CONDITION_GTE

datatype memory_order =
    memory_order_relaxed
  | memory_order_acquire
  | memory_order_release
  | memory_order_seq_cst

text \<open>
  \<open>amd_signal_t\<close> is the object an \<open>hsa_signal_t\<close> handle points to
  (\<open>reinterpret_cast<amd_signal_t*>(orig.handle)\<close>, line 167). Only the three members
  the tracker reads or writes are kept; \<open>value\<close> is a signed 64-bit integer, read with
  \<open>sint\<close>.
\<close>

record amd_signal_t =
  signal_value :: hsa_signal_value_t
  start_ts :: "64 word"
  end_ts :: "64 word"

record hsa_amd_profiling_dispatch_time_t =
  dispatch_start :: "64 word"
  dispatch_end :: "64 word"

subsection \<open>Types of the tracker\<close>

text \<open>
  \<open>record_t\<close> is \<open>rocprofiler_dispatch_record_t\<close>, with the four members the tracker
  writes; \<open>begin\<close> and \<open>end\<close> are written \<open>record_begin\<close> and \<open>record_end\<close>. The
  member \<open>record\<close> of \<open>entry_t\<close> is written \<open>record_p\<close>.
\<close>

record record_t =
  dispatch :: timestamp_t
  record_begin :: timestamp_t
  record_end :: timestamp_t
  complete :: timestamp_t

text \<open>
  \<open>rocprofiler_group_t\<close>, the first argument of a \<open>rocprofiler_handler_t\<close>, is
  declared in inc/rocprofiler.h, which is not among the sources; \<open>group{}\<close> at line 192
  sets every member to zero.
\<close>

record rocprofiler_group_t =
  index :: "32 word"
  features :: addr
  feature_count :: "32 word"
  group_context :: addr

text \<open>
  \<open>std::list<entry_t*>\<close>: a list of nodes, each holding an entry pointer. An iterator is
  the node it points to, so it stays valid while other nodes are inserted or erased.
  Nodes are numbered in the order of their insertion (\<open>next_node\<close> in the state).
\<close>

type_synonym node = nat
type_synonym sig_list_t = "(node \<times> addr) list"

datatype sig_list_it_t = It_singular | It_node node | It_end

record entry_t =
  it :: sig_list_it_t
  agent :: hsa_agent_t
  orig :: hsa_signal_t
  signal :: hsa_signal_t
  record_p :: addr
  handler :: addr
  arg :: addr
  context_active :: bool

text \<open>
  The member \<open>tracker\<close> of \<open>entry_t\<close> is set to \<open>this\<close> at line 85 and never written
  again; the model has one tracker, which \<open>entry->tracker\<close> always designates.
\<close>

datatype callback = Tracker_Handler

datatype action =
    Write_context_active addr bool
  | Write_arg addr addr
  | Store_handler memory_order addr addr

datatype event =
    New_entry addr
  | New_record addr
  | Call_TimestampNs timestamp_t
  | Call_hsa_signal_create hsa_signal_value_t nat hsa_status_t hsa_signal_t
  | Call_hsa_amd_signal_async_handler hsa_signal_t hsa_signal_condition_t
      hsa_signal_value_t callback addr hsa_status_t
  | Mutex_lock
  | Mutex_unlock
  | List_insert node addr
  | List_erase sig_list_it_t
  | Entry_write action
  | Load_handler memory_order addr addr
  | Sched_yield
  | Debug_print
  | Call_hsa_amd_profiling_get_dispatch_time hsa_agent_t hsa_signal_t hsa_status_t
  | Copy_start_ts addr addr
  | Copy_end_ts addr addr
  | Call_hsa_signal_load_relaxed hsa_signal_t hsa_signal_value_t
  | Call_hsa_signal_store_screlease hsa_signal_t hsa_signal_value_t
  | Call_hsa_amd_signal_handler addr hsa_signal_value_t addr
  | Call_rocprofiler_handler_t addr rocprofiler_group_t addr
  | Call_hsa_signal_destroy hsa_signal_t
  | Delete_entry addr
  | Call_SignalWait hsa_signal_t

text \<open>
  Modelled from the spec: \<open>EXC_RAISING\<close> is a macro of util/exception.h, which is not
  among the sources. An error of the runtime is raised at once and the operation does not
  continue: \<open>Exception status msg\<close> is what \<open>EXC_RAISING(status, msg)\<close> raises.
  \<open>Assertion_failed\<close> is a failed \<open>assert\<close>; \<open>Undefined_behaviour\<close> is the use of a
  pointer or an iterator that designates no object; \<open>Still_polling\<close> is the loop of line
  182 that has not seen a handler in the polls it was given; \<open>Blocked\<close> is a wait that
  never returns.
\<close>

datatype error =
    Exception hsa_status_t string
  | Assertion_failed
  | Undefined_behaviour
  | Still_polling
  | Blocked

text \<open>
  The state: the members \<open>sig_list_\<close> and \<open>outstanding_\<close> of the tracker (the member
  \<open>mutex_\<close> is held only inside \<open>Alloc\<close> and \<open>Delete\<close> and shows in the trace, the
  member \<open>hsa_rsrc_\<close> is the \<open>runtime\<close> below), the entries and records allocated with
  \<open>new\<close>, the signal memory, the callbacks the runtime holds and the trace. The signal
  memory maps a handle to the \<open>amd_signal_t\<close> it points to: \<open>hsa_signal_create\<close> puts a
  signal with the initial value at the handle it returns, \<open>hsa_signal_destroy\<close> removes
  it, and \<open>hsa_signal_load_relaxed\<close> and \<open>hsa_signal_store_screlease\<close> read and write
  its value. \<open>async_handlers\<close> maps the handle of a signal to the argument of the
  callback that \<open>hsa_amd_signal_async_handler\<close> registered on it; the callback is always
  \<open>Handler\<close> (line 98).
\<close>

record tracker_state =
  sig_list :: sig_list_t
  next_node :: node
  outstanding :: "64 word"
  entries :: "addr \<rightharpoonup> entry_t"
  records :: "addr \<rightharpoonup> record_t"
  signals :: "64 word \<rightharpoonup> amd_signal_t"
  async_handlers :: "64 word \<rightharpoonup> addr"
  trace :: "event list"

text \<open>
  What the environment of the tracker answers during one operation: the allocator
  (\<open>new\<close>), the HSA runtime and \<open>util::HsaRsrcFactory\<close>. \<open>Alloc\<close> and \<open>Complete\<close>
  call each of these functions at most once, so one answer per function describes the
  environment of one operation; the theorems hold for every answer. \<open>signal_arrives\<close>
  is what the device does to the signal memory while the destructor waits.
\<close>

record runtime =
  new_entry :: addr
  new_record :: addr
  TimestampNs :: timestamp_t
  SysclockToNs :: "64 word \<Rightarrow> timestamp_t"
  hsa_signal_create :: "hsa_status_t \<times> hsa_signal_t"
  hsa_amd_signal_async_handler :: hsa_status_t
  hsa_amd_profiling_get_dispatch_time :: "hsa_status_t \<times> hsa_amd_profiling_dispatch_time_t"
  signal_arrives ::
    "hsa_signal_t \<Rightarrow> (64 word \<rightharpoonup> amd_signal_t) \<Rightarrow> (64 word \<rightharpoonup> amd_signal_t) option"

subsection \<open>Value initialisation and the list\<close>

definition entry_t_init :: entry_t where
  "entry_t_init =
     \<lparr>it = It_singular, agent = hsa_agent_t 0, orig = hsa_signal_t 0, signal = hsa_signal_t 0,
      record_p = 0, handler = 0, arg = 0, context_active = False\<rparr>"

definition record_t_init :: record_t where
  "record_t_init = \<lparr>dispatch = 0, record_begin = 0, record_end = 0, complete = 0\<rparr>"

definition rocprofiler_group_t_init :: rocprofiler_group_t where
  "rocprofiler_group_t_init = \<lparr>index = 0, features = 0, feature_count = 0, group_context = 0\<rparr>"

definition amd_signal_t_create :: "hsa_signal_value_t \<Rightarrow> amd_signal_t" where
  "amd_signal_t_create initial_value = \<lparr>signal_value = initial_value, start_ts = 0, end_ts = 0\<rparr>"

definition trace_on :: bool where
  "trace_on = False"

definition emit :: "event \<Rightarrow> tracker_state \<Rightarrow> tracker_state" where
  "emit ev s = s\<lparr>trace := trace s @ [ev]\<rparr>"

definition list_begin :: "sig_list_t \<Rightarrow> sig_list_it_t" where
  "list_begin l = (case l of [] \<Rightarrow> It_end | (n, p) # l' \<Rightarrow> It_node n)"

text \<open>\<open>it++\<close>, \<open>*it\<close> and \<open>erase(it)\<close>; \<open>None\<close> when \<open>it\<close> is not at a node of the list.\<close>

fun list_next :: "sig_list_it_t \<Rightarrow> sig_list_t \<Rightarrow> sig_list_it_t option" where
  "list_next i [] = None"
| "list_next i ((n, p) # l) = (if i = It_node n then Some (list_begin l) else list_next i l)"

fun list_deref :: "sig_list_it_t \<Rightarrow> sig_list_t \<Rightarrow> addr option" where
  "list_deref i [] = None"
| "list_deref i ((n, p) # l) = (if i = It_node n then Some p else list_deref i l)"

fun list_erase :: "sig_list_it_t \<Rightarrow> sig_list_t \<Rightarrow> sig_list_t option" where
  "list_erase i [] = None"
| "list_erase i ((n, p) # l) =
     (if i = It_node n then Some l
      else (case list_erase i l of None \<Rightarrow> None | Some l' \<Rightarrow> Some ((n, p) # l')))"

subsection \<open>The constructor and Alloc\<close>

definition Tracker :: tracker_state where
  "Tracker =
     \<lparr>sig_list = [], next_node = 0, outstanding = 0, entries = Map.empty,
      records = Map.empty, signals = Map.empty, async_handlers = Map.empty, trace = []\<rparr>"

definition Alloc ::
  "runtime \<Rightarrow> hsa_agent_t \<Rightarrow> hsa_signal_t \<Rightarrow> tracker_state \<Rightarrow> (error + addr) \<times> tracker_state"
where
  "Alloc rt agent' orig' s0 =
    (let entry = new_entry rt;
         s1 = emit (New_entry entry) s0
     in if entry = 0 then (Inl Assertion_failed, s1) else
     let e1 = entry_t_init\<lparr>agent := agent', orig := orig'\<rparr>;
         s2 = s1\<lparr>entries := (entries s1)(entry \<mapsto> e1)\<rparr>;
         rec' = new_record rt;
         s3 = emit (New_record rec') s2
     in if rec' = 0 then (Inl Assertion_failed, s3) else
     let now = TimestampNs rt;
         e2 = e1\<lparr>record_p := rec'\<rparr>;
         s4 = emit (Call_TimestampNs now)
                (s3\<lparr>records := (records s3)(rec' \<mapsto> record_t_init\<lparr>dispatch := now\<rparr>),
                    entries := (entries s3)(entry \<mapsto> e2)\<rparr>);
         (status, sig) = hsa_signal_create rt;
         s5 = emit (Call_hsa_signal_create 1 0 status sig) s4
     in if status \<noteq> HSA_STATUS_SUCCESS
        then (Inl (Exception status ''hsa_signal_create''), s5) else
     let e3 = e2\<lparr>signal := sig\<rparr>;
         s6 = s5\<lparr>entries := (entries s5)(entry \<mapsto> e3),
                 signals := (signals s5)(handle sig \<mapsto> amd_signal_t_create 1)\<rparr>;
         status' = hsa_amd_signal_async_handler rt;
         s7 = emit (Call_hsa_amd_signal_async_handler sig HSA_SIGNAL_CONDITION_LT 1
                      Tracker_Handler entry status') s6
     in if status' \<noteq> HSA_STATUS_SUCCESS
        then (Inl (Exception status' ''hsa_amd_signal_async_handler''), s7) else
     let s8 = emit Mutex_lock
                (s7\<lparr>async_handlers := (async_handlers s7)(handle sig \<mapsto> entry)\<rparr>);
         n = next_node s8;
         s9 = emit (List_insert n entry)
                (s8\<lparr>sig_list := (n, entry) # sig_list s8, next_node := Suc n,
                    entries := (entries s8)(entry \<mapsto> e3\<lparr>it := It_node n\<rparr>)\<rparr>);
         s10 = emit Mutex_unlock s9
     in (Inr entry, s10))"

subsection \<open>Delete\<close>

text \<open>
  \<open>hsa_signal_destroy\<close> returns a status that line 111 drops. The mutex is free
  whenever one thread runs the operations one after the other, so \<open>lock\<close> never waits
  there; \<open>lock\<close> and \<open>unlock\<close> are kept in the trace.
\<close>

definition Delete :: "addr \<Rightarrow> tracker_state \<Rightarrow> (error + unit) \<times> tracker_state" where
  "Delete entry s0 =
    (case entries s0 entry of
       None \<Rightarrow> (Inl Undefined_behaviour, s0)
     | Some e \<Rightarrow>
        let s1 = emit (Call_hsa_signal_destroy (signal e))
                   (s0\<lparr>signals := (signals s0)(handle (signal e) := None)\<rparr>);
            s2 = emit Mutex_lock s1
        in (case list_erase (it e) (sig_list s2) of
              None \<Rightarrow> (Inl Undefined_behaviour, s2)
            | Some l \<Rightarrow>
               let s3 = emit (List_erase (it e)) (s2\<lparr>sig_list := l\<rparr>);
                   s4 = emit Mutex_unlock s3;
                   s5 = emit (Delete_entry entry) (s4\<lparr>entries := (entries s4)(entry := None)\<rparr>)
               in (Inr (), s5)))"

subsection \<open>Enable\<close>

text \<open>One write of a field of an entry by the arming thread.\<close>

fun perform :: "action \<Rightarrow> tracker_state \<Rightarrow> (error + unit) \<times> tracker_state" where
  "perform (Write_context_active p b) s =
     (case entries s p of
        None \<Rightarrow> (Inl Undefined_behaviour, s)
      | Some e \<Rightarrow> (Inr (), emit (Entry_write (Write_context_active p b))
                            (s\<lparr>entries := (entries s)(p \<mapsto> e\<lparr>context_active := b\<rparr>)\<rparr>)))"
| "perform (Write_arg p v) s =
     (case entries s p of
        None \<Rightarrow> (Inl Undefined_behaviour, s)
      | Some e \<Rightarrow> (Inr (), emit (Entry_write (Write_arg p v))
                            (s\<lparr>entries := (entries s)(p \<mapsto> e\<lparr>arg := v\<rparr>)\<rparr>)))"
| "perform (Store_handler mo p v) s =
     (case entries s p of
        None \<Rightarrow> (Inl Undefined_behaviour, s)
      | Some e \<Rightarrow> (Inr (), emit (Entry_write (Store_handler mo p v))
                            (s\<lparr>entries := (entries s)(p \<mapsto> e\<lparr>handler := v\<rparr>)\<rparr>)))"

definition Enable :: "addr \<Rightarrow> addr \<Rightarrow> addr \<Rightarrow> tracker_state \<Rightarrow> (error + unit) \<times> tracker_state"
where
  "Enable entry handler' arg' s0 =
    (case perform (Write_arg entry arg') s0 of
       (Inl err, s1) \<Rightarrow> (Inl err, s1)
     | (Inr u, s1) \<Rightarrow>
        (case perform (Store_handler memory_order_release entry handler') s1 of
           (Inl err, s2) \<Rightarrow> (Inl err, s2)
         | (Inr u', s2) \<Rightarrow>
            if trace_on
            then (Inr (), emit Debug_print (s2\<lparr>outstanding := outstanding s2 + 1\<rparr>))
            else (Inr (), s2)))"

definition Enable_hsa_amd_signal_handler ::
  "addr \<Rightarrow> addr \<Rightarrow> addr \<Rightarrow> tracker_state \<Rightarrow> (error + unit) \<times> tracker_state"
where
  "Enable_hsa_amd_signal_handler entry handler' arg' s0 =
    (case perform (Write_context_active entry True) s0 of
       (Inl err, s1) \<Rightarrow> (Inl err, s1)
     | (Inr u, s1) \<Rightarrow> Enable entry handler' arg' s1)"

definition Enable_rocprofiler_handler_t ::
  "addr \<Rightarrow> addr \<Rightarrow> addr \<Rightarrow> tracker_state \<Rightarrow> (error + unit) \<times> tracker_state"
where
  "Enable_rocprofiler_handler_t entry handler' arg' s0 = Enable entry handler' arg' s0"

subsection \<open>Complete\<close>

definition Complete :: "runtime \<Rightarrow> addr \<Rightarrow> tracker_state \<Rightarrow> (error + unit) \<times> tracker_state"
where
  "Complete rt entry s0 =
    (case entries s0 entry of
       None \<Rightarrow> (Inl Undefined_behaviour, s0)
     | Some e \<Rightarrow>
        let rec' = record_p e;
            s1 = (if trace_on then emit Debug_print (s0\<lparr>outstanding := outstanding s0 - 1\<rparr>)
                  else s0);
            (status, dispatch_time) = hsa_amd_profiling_get_dispatch_time rt;
            s2 = emit (Call_hsa_amd_profiling_get_dispatch_time (agent e) (signal e) status) s1
        in if status \<noteq> HSA_STATUS_SUCCESS
           then (Inl (Exception status ''hsa_amd_profiling_get_dispatch_time''), s2) else
        (case records s2 rec' of
           None \<Rightarrow> (Inl Undefined_behaviour, s2)
         | Some r \<Rightarrow>
            let now = TimestampNs rt;
                s3 = emit (Call_TimestampNs now)
                       (s2\<lparr>records := (records s2)(rec' \<mapsto>
                            r\<lparr>record_begin := SysclockToNs rt (dispatch_start dispatch_time),
                              record_end := SysclockToNs rt (dispatch_end dispatch_time),
                              complete := now\<rparr>)\<rparr>);
                orig' = orig e
            in if handle orig' \<noteq> 0 then
                 let orig_signal_ptr = handle orig';
                     prof_signal_ptr = handle (signal e)
                 in (case (signals s3 prof_signal_ptr, signals s3 orig_signal_ptr) of
                       (Some prof1, Some orig1) \<Rightarrow>
                         let s4 = emit (Copy_start_ts orig_signal_ptr prof_signal_ptr)
                                    (s3\<lparr>signals := (signals s3)(orig_signal_ptr \<mapsto>
                                         orig1\<lparr>start_ts := start_ts prof1\<rparr>)\<rparr>)
                         in (case (signals s4 prof_signal_ptr, signals s4 orig_signal_ptr) of
                               (Some prof2, Some orig2) \<Rightarrow>
                                 let s5 = emit (Copy_end_ts orig_signal_ptr prof_signal_ptr)
                                            (s4\<lparr>signals := (signals s4)(orig_signal_ptr \<mapsto>
                                                 orig2\<lparr>end_ts := end_ts prof2\<rparr>)\<rparr>)
                                 in (case signals s5 orig_signal_ptr of
                                       Some orig3 \<Rightarrow>
                                         let value = signal_value orig3;
                                             s6 = emit (Call_hsa_signal_load_relaxed orig' value) s5;
                                             s7 = emit (Call_hsa_signal_store_screlease orig'
                                                          (value - 1))
                                                    (s6\<lparr>signals := (signals s6)(orig_signal_ptr \<mapsto>
                                                         orig3\<lparr>signal_value := value - 1\<rparr>)\<rparr>)
                                         in (Inr (), s7)
                                     | None \<Rightarrow> (Inl Undefined_behaviour, s5))
                             | _ \<Rightarrow> (Inl Undefined_behaviour, s4))
                     | _ \<Rightarrow> (Inl Undefined_behaviour, s3))
               else (Inr (), s3)))"

subsection \<open>Handler\<close>

text \<open>
  The loop of line 182 runs while the arming thread may still be inside \<open>Enable\<close>.
  \<open>env\<close> gives one list per poll: the writes of the arming thread that reach the entry
  before that load, in their order. The loop has as many polls as \<open>env\<close> has lists; a
  thread that runs alone gets empty lists.
\<close>

fun perform_all :: "action list \<Rightarrow> tracker_state \<Rightarrow> (error + unit) \<times> tracker_state" where
  "perform_all [] s = (Inr (), s)"
| "perform_all (a # as) s =
     (case perform a s of
        (Inl err, s1) \<Rightarrow> (Inl err, s1)
      | (Inr u, s1) \<Rightarrow> perform_all as s1)"

fun poll :: "action list list \<Rightarrow> addr \<Rightarrow> tracker_state \<Rightarrow> (error + unit) \<times> tracker_state" where
  "poll [] entry s = (Inl Still_polling, s)"
| "poll (acts # env) entry s =
     (case perform_all acts s of
        (Inl err, s1) \<Rightarrow> (Inl err, s1)
      | (Inr u, s1) \<Rightarrow>
         (case entries s1 entry of
            None \<Rightarrow> (Inl Undefined_behaviour, s1)
          | Some e \<Rightarrow>
             let s2 = emit (Load_handler memory_order_acquire entry (handler e)) s1
             in if handler e = 0 then poll env entry (emit Sched_yield s2) else (Inr (), s2)))"

definition Handler ::
  "runtime \<Rightarrow> action list list \<Rightarrow> hsa_signal_value_t \<Rightarrow> addr \<Rightarrow> tracker_state
     \<Rightarrow> (error + bool) \<times> tracker_state"
where
  "Handler rt env value arg' s0 =
    (let entry = arg' in
     case poll env entry s0 of
       (Inl err, s1) \<Rightarrow> (Inl err, s1)
     | (Inr u, s1) \<Rightarrow>
        (case Complete rt entry s1 of
           (Inl err, s2) \<Rightarrow> (Inl err, s2)
         | (Inr u', s2) \<Rightarrow>
            (case entries s2 entry of
               None \<Rightarrow> (Inl Undefined_behaviour, s2)
             | Some e \<Rightarrow>
                let handler' = handler e;
                    s3 = emit (Load_handler memory_order_seq_cst entry handler') s2;
                    s4 = (if context_active e
                          then emit (Call_hsa_amd_signal_handler handler' 0 (arg e)) s3
                          else emit (Call_rocprofiler_handler_t handler' rocprofiler_group_t_init
                                       (arg e)) s3)
                in (case Delete entry s4 of
                      (Inl err, s5) \<Rightarrow> (Inl err, s5)
                    | (Inr u'', s5) \<Rightarrow> (Inr False, s5)))))"

subsection \<open>The destructor\<close>

text \<open>
  Modelled from the spec: the blocking wait of the destructor forces the runtime to fire
  the handler pending on the signal. The runtime calls the callback that \<open>Alloc\<close>
  registered on the signal (line 98, for the condition the destructor waits on), once,
  with the value of the signal and the registered argument, and keeps the callback
  registered only if it returns \<open>true\<close>. The callback is \<open>Handler\<close>, from the source.
  No thread arms an entry while the destructor runs, so every poll of the fired callback
  sees the same handler and one poll decides: a callback fired on an entry that was
  never armed stays in the loop of line 182.
\<close>

definition fire_async_handler ::
  "runtime \<Rightarrow> hsa_signal_t \<Rightarrow> hsa_signal_value_t \<Rightarrow> tracker_state
     \<Rightarrow> (error + unit) \<times> tracker_state"
where
  "fire_async_handler rt sig value s =
    (case async_handlers s (handle sig) of
       None \<Rightarrow> (Inr (), s)
     | Some arg' \<Rightarrow>
        (case Handler rt [[]] value arg'
                (s\<lparr>async_handlers := (async_handlers s)(handle sig := None)\<rparr>) of
           (Inl err, s1) \<Rightarrow> (Inl err, s1)
         | (Inr again, s1) \<Rightarrow>
            (Inr (),
             if again
             then s1\<lparr>async_handlers := (async_handlers s1)(handle sig \<mapsto> arg')\<rparr>
             else s1)))"

text \<open>
  Modelled from the spec: \<open>HsaRsrcFactory::SignalWait\<close> is declared in
  util/hsa_rsrc_factory.h, which is not among the sources. It blocks until the
  completion condition of the signal, a value below 1, is observed, and this forces the
  runtime to fire the pending handler; the fired callback has run to its end when the
  wait returns. A signal that never reaches the condition leaves the destructor blocked.
\<close>

definition SignalWait :: "runtime \<Rightarrow> hsa_signal_t \<Rightarrow> tracker_state \<Rightarrow> (error + unit) \<times> tracker_state"
where
  "SignalWait rt sig s =
    (let s1 = emit (Call_SignalWait sig) s
     in case signal_arrives rt sig (signals s1) of
          None \<Rightarrow> (Inl Blocked, s1)
        | Some mem \<Rightarrow>
           (case mem (handle sig) of
              None \<Rightarrow> (Inl Undefined_behaviour, s1)
            | Some a \<Rightarrow>
               if sint (signal_value a) < 1
               then fire_async_handler rt sig (signal_value a) (s1\<lparr>signals := mem\<rparr>)
               else (Inl Blocked, s1)))"

text \<open>
  The loop of lines 69 to 75. \<open>it++\<close> and \<open>*cur\<close> on an iterator that is at no node of
  the list are undefined behaviour. \<open>Erase(cur)\<close> is \<open>Delete(*cur)\<close>.
\<close>

function Tracker_destroy_loop ::
  "runtime \<Rightarrow> sig_list_it_t \<Rightarrow> tracker_state \<Rightarrow> (error + unit) \<times> tracker_state"
where
  "Tracker_destroy_loop rt i s =
    (if i = It_end then (Inr (), s) else
     (case list_next i (sig_list s) of
        None \<Rightarrow> (Inl Undefined_behaviour, s)
      | Some i' \<Rightarrow>
         (case list_deref i (sig_list s) of
            None \<Rightarrow> (Inl Undefined_behaviour, s)
          | Some entry \<Rightarrow>
             (case entries s entry of
                None \<Rightarrow> (Inl Undefined_behaviour, s)
              | Some e \<Rightarrow>
                 (case SignalWait rt (signal e) s of
                    (Inl err, s1) \<Rightarrow> (Inl err, s1)
                  | (Inr u, s1) \<Rightarrow>
                     (case list_deref i (sig_list s1) of
                        None \<Rightarrow> (Inl Undefined_behaviour, s1)
                      | Some entry' \<Rightarrow>
                         (case Delete entry' s1 of
                            (Inl err, s2) \<Rightarrow> (Inl err, s2)
                          | (Inr u', s2) \<Rightarrow> Tracker_destroy_loop rt i' s2)))))))"
  by pat_completeness auto
termination
proof -
  have erase: "list_erase i l = Some l' \<Longrightarrow> length l' < length l" for i l l'
    by (induction l arbitrary: l') (auto split: if_splits option.splits)
  have del: "(Inr u, s') = Delete entry s \<Longrightarrow> length (sig_list s') < length (sig_list s)"
    for u s' entry s
    by (auto simp: Delete_def Let_def emit_def split: option.splits dest: erase)
  have del_le: "length (sig_list (snd (Delete entry s))) \<le> length (sig_list s)" for entry s
    by (auto simp: Delete_def Let_def emit_def split: option.splits dest: erase)
  have pol: "sig_list (snd (poll [[]] entry s)) = sig_list s" for entry s
    by (simp add: Let_def emit_def split: option.splits)
  have com: "sig_list (snd (Complete rt entry s)) = sig_list s" for rt entry s
    by (simp add: Complete_def Let_def emit_def trace_on_def case_prod_beta
        split: option.splits)
  have han: "length (sig_list (snd (Handler rt [[]] v entry s))) \<le> length (sig_list s)"
    for rt v entry s
  proof -
    obtain r1 s1 where p: "poll [[]] entry s = (r1, s1)" by (cases "poll [[]] entry s")
    obtain r2 s2 where c: "Complete rt entry s1 = (r2, s2)" by (cases "Complete rt entry s1")
    have l1: "sig_list s1 = sig_list s" using pol [of entry s] p by simp
    have l2: "sig_list s2 = sig_list s" using com [of rt entry s1] c l1 by simp
    show ?thesis
    proof (cases r1)
      case (Inl err)
      with p l1 show ?thesis by (simp add: Handler_def)
    next
      case r1: (Inr u)
      show ?thesis
      proof (cases r2)
        case (Inl err)
        with p c r1 l2 show ?thesis by (simp add: Handler_def)
      next
        case r2: (Inr u')
        show ?thesis
        proof (cases "entries s2 entry")
          case None
          with p c r1 r2 l2 show ?thesis by (simp add: Handler_def)
        next
          case (Some e)
          let ?s3 = "emit (Load_handler memory_order_seq_cst entry (handler e)) s2"
          let ?s4 = "if context_active e
                     then emit (Call_hsa_amd_signal_handler (handler e) 0 (arg e)) ?s3
                     else emit (Call_rocprofiler_handler_t (handler e) rocprofiler_group_t_init
                                  (arg e)) ?s3"
          have l4: "sig_list ?s4 = sig_list s" using l2 by (simp add: emit_def)
          have "snd (Handler rt [[]] v entry s) = snd (Delete entry ?s4)"
            using p c r1 r2 Some
            by (simp add: Handler_def Let_def split: prod.splits sum.splits)
          with del_le [of entry ?s4] l4 show ?thesis by simp
        qed
      qed
    qed
  qed
  have fire: "length (sig_list (snd (fire_async_handler rt sig v s))) \<le> length (sig_list s)"
    for rt sig v s
  proof (cases "async_handlers s (handle sig)")
    case None
    then show ?thesis by (simp add: fire_async_handler_def)
  next
    case (Some a)
    let ?s0 = "s\<lparr>async_handlers := (async_handlers s)(handle sig := None)\<rparr>"
    from han [of rt v a ?s0] Some show ?thesis
      by (cases "Handler rt [[]] v a ?s0")
         (auto simp: fire_async_handler_def split: sum.splits)
  qed
  have wait_le: "length (sig_list (snd (SignalWait rt sig s))) \<le> length (sig_list s)"
    for rt sig s
  proof (cases "signal_arrives rt sig (signals s)")
    case None
    then show ?thesis by (simp add: SignalWait_def Let_def emit_def)
  next
    case (Some mem)
    show ?thesis
    proof (cases "mem (handle sig)")
      case None
      with Some show ?thesis by (simp add: SignalWait_def Let_def emit_def)
    next
      case a: (Some a)
      let ?s1 = "(emit (Call_SignalWait sig) s)\<lparr>signals := mem\<rparr>"
      have "sig_list ?s1 = sig_list s" by (simp add: emit_def)
      with fire [of rt sig "signal_value a" ?s1] Some a show ?thesis
        by (simp add: SignalWait_def Let_def emit_def)
    qed
  qed
  have wait: "(Inr u, s') = SignalWait rt sig s \<Longrightarrow> length (sig_list s') \<le> length (sig_list s)"
    for u s' rt sig s
    using wait_le [of rt sig s] by (cases "SignalWait rt sig s") simp
  show ?thesis
    by (relation "measure (\<lambda>(rt, i, s). length (sig_list s))")
       (auto dest!: del wait)
qed

definition Tracker_destroy :: "runtime \<Rightarrow> tracker_state \<Rightarrow> (error + unit) \<times> tracker_state" where
  "Tracker_destroy rt s = Tracker_destroy_loop rt (list_begin (sig_list s)) s"

subsection \<open>An example\<close>

text \<open>
  A runtime in which every call succeeds and every signal arrives with the value 0; a
  world that holds one signal of the caller, of handle 64 and value 1; the state after
  \<open>Alloc\<close> for that signal; the same state once the device has completed the dispatch on
  the proxy signal; that state after \<open>Enable\<close>; and a run of the arming thread in which
  the handler is stored before the third poll of the callback. Then a runtime whose
  timestamp query fails, an armed entry allocated for a null original signal, and a
  registry of two entries.
\<close>

definition example_runtime :: runtime where
  "example_runtime =
     \<lparr>new_entry = 4096, new_record = 8192, TimestampNs = 1000,
      SysclockToNs = (\<lambda>t. 10 * t),
      hsa_signal_create = (HSA_STATUS_SUCCESS, hsa_signal_t 512),
      hsa_amd_signal_async_handler = HSA_STATUS_SUCCESS,
      hsa_amd_profiling_get_dispatch_time =
        (HSA_STATUS_SUCCESS, \<lparr>dispatch_start = 20, dispatch_end = 30\<rparr>),
      signal_arrives = (\<lambda>sig mem. Some (mem(handle sig \<mapsto> amd_signal_t_create 0)))\<rparr>"

definition example_world :: tracker_state where
  "example_world = Tracker\<lparr>signals := [64 \<mapsto> amd_signal_t_create 1]\<rparr>"

definition example_allocated :: tracker_state where
  "example_allocated =
     snd (Alloc example_runtime (hsa_agent_t 7) (hsa_signal_t 64) example_world)"

definition example_completed :: tracker_state where
  "example_completed =
     example_allocated\<lparr>signals := (signals example_allocated)
       (512 \<mapsto> \<lparr>signal_value = 0, start_ts = 20, end_ts = 30\<rparr>)\<rparr>"

definition example_armed :: tracker_state where
  "example_armed = snd (Enable_hsa_amd_signal_handler 4096 77 5 example_completed)"

definition example_race :: "action list list" where
  "example_race =
     [[], [Write_context_active 4096 True, Write_arg 4096 5],
      [Store_handler memory_order_release 4096 77]]"

definition example_query_fails :: runtime where
  "example_query_fails =
     example_runtime\<lparr>hsa_amd_profiling_get_dispatch_time :=
       (HSA_STATUS_ERROR, \<lparr>dispatch_start = 0, dispatch_end = 0\<rparr>)\<rparr>"

definition example_null_original :: tracker_state where
  "example_null_original =
     snd (Enable_rocprofiler_handler_t 4096 77 5
            (snd (Alloc example_runtime (hsa_agent_t 7) (hsa_signal_t 0) Tracker)))"

definition example_second :: runtime where
  "example_second =
     example_runtime\<lparr>new_entry := 4160, new_record := 8256,
       hsa_signal_create := (HSA_STATUS_SUCCESS, hsa_signal_t 576)\<rparr>"

definition example_two :: tracker_state where
  "example_two = snd (Alloc example_second (hsa_agent_t 7) (hsa_signal_t 0) example_allocated)"

text \<open>
  A runtime whose wait finds the signal memory as it is: the device has completed the
  dispatch on the proxy signal before the destructor runs.
\<close>

definition example_shutdown :: runtime where
  "example_shutdown = example_runtime\<lparr>signal_arrives := (\<lambda>sig mem. Some mem)\<rparr>"


subsection \<open>Reading the trace\<close>

text \<open>
  \<open>polling entry ev\<close>: \<open>ev\<close> is an acquire load of a null handler of the entry, the
  \<open>sched_yield\<close> that follows it, or a write of the arming thread. \<open>armed_load entry ev\<close>:
  \<open>ev\<close> is an acquire load of a handler that is not null. \<open>handler_store entry ev\<close>:
  \<open>ev\<close> stores a handler that is not null into the entry. \<open>user_call ev\<close>: \<open>ev\<close> is
  a call of the user handler, in either convention. \<open>original_access ev\<close>: \<open>ev\<close> reads
  or writes the original signal.
\<close>

fun polling :: "addr \<Rightarrow> event \<Rightarrow> bool" where
  "polling entry (Load_handler mo p v) = (mo = memory_order_acquire \<and> p = entry \<and> v = 0)"
| "polling entry Sched_yield = True"
| "polling entry (Entry_write a) = True"
| "polling entry ev = False"

fun armed_load :: "addr \<Rightarrow> event \<Rightarrow> bool" where
  "armed_load entry (Load_handler mo p v) = (mo = memory_order_acquire \<and> p = entry \<and> v \<noteq> 0)"
| "armed_load entry ev = False"

fun handler_store :: "addr \<Rightarrow> event \<Rightarrow> bool" where
  "handler_store entry (Entry_write (Store_handler mo p v)) = (p = entry \<and> v \<noteq> 0)"
| "handler_store entry ev = False"

fun user_call :: "event \<Rightarrow> bool" where
  "user_call (Call_hsa_amd_signal_handler h v a) = True"
| "user_call (Call_rocprofiler_handler_t h g a) = True"
| "user_call ev = False"

fun original_access :: "event \<Rightarrow> bool" where
  "original_access (Copy_start_ts p q) = True"
| "original_access (Copy_end_ts p q) = True"
| "original_access (Call_hsa_signal_load_relaxed sig v) = True"
| "original_access (Call_hsa_signal_store_screlease sig v) = True"
| "original_access ev = False"

text \<open>The events of an operation: what it appended to the trace of the state it started in.\<close>

definition events_since :: "tracker_state \<Rightarrow> tracker_state \<Rightarrow> event list" where
  "events_since s s' = drop (length (trace s)) (trace s')"

subsection \<open>The invariant of the registry\<close>

text \<open>
  The nodes of the list are distinct and older than \<open>next_node\<close>, and each node holds a
  live entry whose member \<open>it\<close> is the iterator at that node.
\<close>

definition registry_inv :: "tracker_state \<Rightarrow> bool" where
  "registry_inv s \<longleftrightarrow>
     distinct (map fst (sig_list s)) \<and>
     list_all (\<lambda>(n, p). n < next_node s \<and>
                 (case entries s p of None \<Rightarrow> False | Some e \<Rightarrow> it e = It_node n))
       (sig_list s)"

section \<open>Lemmas\<close>

subsection \<open>Complete and Handler on an entry whose handler is visible\<close>

lemma sint_dec:
  fixes v :: "64 word"
  assumes "sint v \<noteq> - (2 ^ 63)"
  shows "sint (v - 1) = sint v - 1"
proof -
  have lo: "- (2 ^ 63) \<le> sint v" using sint_ge [of v] by simp
  have hi: "sint v < 2 ^ 63" using sint_lt [of v] by simp
  have "sint (v - 1) = signed_take_bit 63 (sint v - 1)"
    by (simp add: sint_word_ariths)
  also have "\<dots> = sint v - 1"
    using lo hi assms by (intro signed_take_bit_int_eq_self) auto
  finally show ?thesis .
qed

lemma Complete_returns:
  assumes "entries s entry = Some e"
    and "records s (record_p e) = Some r"
    and "fst (hsa_amd_profiling_get_dispatch_time rt) = HSA_STATUS_SUCCESS"
    and "handle (orig e) \<noteq> 0 \<longrightarrow>
           signals s (handle (orig e)) = Some so \<and> signals s (handle (signal e)) = Some sp"
  shows "Complete rt entry s =
    (Inr (),
     s\<lparr>records := (records s)(record_p e \<mapsto>
          r\<lparr>record_begin :=
               SysclockToNs rt (dispatch_start (snd (hsa_amd_profiling_get_dispatch_time rt))),
            record_end :=
               SysclockToNs rt (dispatch_end (snd (hsa_amd_profiling_get_dispatch_time rt))),
            complete := TimestampNs rt\<rparr>),
       signals :=
         (if handle (orig e) = 0 then signals s
          else (signals s)(handle (orig e) \<mapsto>
                 so\<lparr>start_ts := start_ts sp, end_ts := end_ts sp,
                    signal_value := signal_value so - 1\<rparr>)),
       trace := trace s @
         [Call_hsa_amd_profiling_get_dispatch_time (agent e) (signal e) 0,
          Call_TimestampNs (TimestampNs rt)] @
         (if handle (orig e) = 0 then []
          else [Copy_start_ts (handle (orig e)) (handle (signal e)),
                Copy_end_ts (handle (orig e)) (handle (signal e)),
                Call_hsa_signal_load_relaxed (orig e) (signal_value so),
                Call_hsa_signal_store_screlease (orig e) (signal_value so - 1)])\<rparr>)"
  using assms
  by (cases "handle (orig e) = handle (signal e)")
     (auto simp add: Complete_def Let_def emit_def trace_on_def case_prod_beta)

lemma Handler_proceeds:
  assumes p: "poll env entry s = (Inr (), s1)"
    and e: "entries s1 entry = Some e"
    and r: "records s1 (record_p e) = Some r"
    and ok: "fst (hsa_amd_profiling_get_dispatch_time rt) = HSA_STATUS_SUCCESS"
    and sigs: "handle (orig e) \<noteq> 0 \<longrightarrow>
           signals s1 (handle (orig e)) = Some so \<and> signals s1 (handle (signal e)) = Some sp"
    and node: "list_erase (it e) (sig_list s1) = Some l"
  shows "Handler rt env v entry s =
    (Inr False,
     s1\<lparr>sig_list := l,
       entries := (entries s1)(entry := None),
       records := (records s1)(record_p e \<mapsto>
          r\<lparr>record_begin :=
               SysclockToNs rt (dispatch_start (snd (hsa_amd_profiling_get_dispatch_time rt))),
            record_end :=
               SysclockToNs rt (dispatch_end (snd (hsa_amd_profiling_get_dispatch_time rt))),
            complete := TimestampNs rt\<rparr>),
       signals :=
         (if handle (orig e) = 0 then signals s1
          else (signals s1)(handle (orig e) \<mapsto>
                 so\<lparr>start_ts := start_ts sp, end_ts := end_ts sp,
                    signal_value := signal_value so - 1\<rparr>))
         (handle (signal e) := None),
       trace := trace s1 @
         [Call_hsa_amd_profiling_get_dispatch_time (agent e) (signal e) 0,
          Call_TimestampNs (TimestampNs rt)] @
         (if handle (orig e) = 0 then []
          else [Copy_start_ts (handle (orig e)) (handle (signal e)),
                Copy_end_ts (handle (orig e)) (handle (signal e)),
                Call_hsa_signal_load_relaxed (orig e) (signal_value so),
                Call_hsa_signal_store_screlease (orig e) (signal_value so - 1)]) @
         [Load_handler memory_order_seq_cst entry (handler e),
          if context_active e then Call_hsa_amd_signal_handler (handler e) 0 (arg e)
          else Call_rocprofiler_handler_t (handler e) rocprofiler_group_t_init (arg e),
          Call_hsa_signal_destroy (signal e), Mutex_lock, List_erase (it e), Mutex_unlock,
          Delete_entry entry]\<rparr>)"
proof -
  note c = Complete_returns [OF e r ok sigs]
  show ?thesis
    unfolding Handler_def Let_def p
    apply (simp only: prod.case sum.case c)
    using e node by (simp add: emit_def Delete_def Let_def)
qed

lemma Handler_raises:
  assumes p: "poll env entry s = (Inr (), s1)"
    and e: "entries s1 entry = Some e"
    and bad: "fst (hsa_amd_profiling_get_dispatch_time rt) \<noteq> HSA_STATUS_SUCCESS"
  shows "Handler rt env v entry s =
    (Inl (Exception (fst (hsa_amd_profiling_get_dispatch_time rt))
            ''hsa_amd_profiling_get_dispatch_time''),
     s1\<lparr>trace := trace s1 @
         [Call_hsa_amd_profiling_get_dispatch_time (agent e) (signal e)
            (fst (hsa_amd_profiling_get_dispatch_time rt))]\<rparr>)"
  using e bad unfolding Handler_def Let_def p
  by (simp add: Complete_def Let_def emit_def trace_on_def case_prod_beta)

lemma poll_armed:
  assumes "entries s entry = Some e" and "handler e \<noteq> 0"
  shows "poll ([] # env) entry s =
           (Inr (), s\<lparr>trace := trace s @ [Load_handler memory_order_acquire entry (handler e)]\<rparr>)"
  using assms by (simp add: Let_def emit_def)

lemma Handler_armed:
  assumes e: "entries s entry = Some e"
    and armed: "handler e \<noteq> 0"
    and r: "records s (record_p e) = Some r"
    and ok: "fst (hsa_amd_profiling_get_dispatch_time rt) = HSA_STATUS_SUCCESS"
    and sigs: "handle (orig e) \<noteq> 0 \<longrightarrow>
           signals s (handle (orig e)) = Some so \<and> signals s (handle (signal e)) = Some sp"
    and node: "list_erase (it e) (sig_list s) = Some l"
  shows "Handler rt ([] # env) v entry s =
    (Inr False,
     s\<lparr>sig_list := l,
       entries := (entries s)(entry := None),
       records := (records s)(record_p e \<mapsto>
          r\<lparr>record_begin :=
               SysclockToNs rt (dispatch_start (snd (hsa_amd_profiling_get_dispatch_time rt))),
            record_end :=
               SysclockToNs rt (dispatch_end (snd (hsa_amd_profiling_get_dispatch_time rt))),
            complete := TimestampNs rt\<rparr>),
       signals :=
         (if handle (orig e) = 0 then signals s
          else (signals s)(handle (orig e) \<mapsto>
                 so\<lparr>start_ts := start_ts sp, end_ts := end_ts sp,
                    signal_value := signal_value so - 1\<rparr>))
         (handle (signal e) := None),
       trace := trace s @
         [Load_handler memory_order_acquire entry (handler e),
          Call_hsa_amd_profiling_get_dispatch_time (agent e) (signal e) 0,
          Call_TimestampNs (TimestampNs rt)] @
         (if handle (orig e) = 0 then []
          else [Copy_start_ts (handle (orig e)) (handle (signal e)),
                Copy_end_ts (handle (orig e)) (handle (signal e)),
                Call_hsa_signal_load_relaxed (orig e) (signal_value so),
                Call_hsa_signal_store_screlease (orig e) (signal_value so - 1)]) @
         [Load_handler memory_order_seq_cst entry (handler e),
          if context_active e then Call_hsa_amd_signal_handler (handler e) 0 (arg e)
          else Call_rocprofiler_handler_t (handler e) rocprofiler_group_t_init (arg e),
          Call_hsa_signal_destroy (signal e), Mutex_lock, List_erase (it e), Mutex_unlock,
          Delete_entry entry]\<rparr>)"
proof -
  let ?s1 = "s\<lparr>trace := trace s @ [Load_handler memory_order_acquire entry (handler e)]\<rparr>"
  have p: "poll ([] # env) entry s = (Inr (), ?s1)" by (rule poll_armed [OF e armed])
  show ?thesis
    using Handler_proceeds [OF p, of e r rt so sp l v] e r ok sigs node by simp
qed

lemma Complete_null_original:
  assumes "entries s entry = Some e" and "handle (orig e) = 0"
  shows "signals (snd (Complete rt entry s)) = signals s \<and>
    list_all (\<lambda>ev. \<not> original_access ev) (events_since s (snd (Complete rt entry s)))"
  using assms
  by (simp add: Complete_def Let_def emit_def trace_on_def case_prod_beta events_since_def
      split: option.splits)

subsection \<open>What the loop of line 182 leaves in the trace\<close>

lemma perform_step:
  "\<exists>evs. trace (snd (perform a s)) = trace s @ evs \<and> list_all (polling entry) evs \<and>
     (\<forall>e1. entries (snd (perform a s)) entry = Some e1 \<longrightarrow> handler e1 \<noteq> 0 \<longrightarrow>
        (\<exists>e. entries s entry = Some e \<and> handler e = handler e1) \<or>
        (\<exists>ev \<in> set evs. handler_store entry ev))"
  by (cases a) (auto simp: emit_def split: option.splits)

lemma perform_all_step:
  "\<exists>evs. trace (snd (perform_all acts s)) = trace s @ evs \<and> list_all (polling entry) evs \<and>
     (\<forall>e1. entries (snd (perform_all acts s)) entry = Some e1 \<longrightarrow> handler e1 \<noteq> 0 \<longrightarrow>
        (\<exists>e. entries s entry = Some e \<and> handler e = handler e1) \<or>
        (\<exists>ev \<in> set evs. handler_store entry ev))"
proof (induction acts arbitrary: s)
  case Nil
  then show ?case by simp
next
  case (Cons a acts)
  obtain r s1 where p: "perform a s = (r, s1)" by (cases "perform a s")
  from perform_step [of a s entry] p obtain evs1 where
    t1: "trace s1 = trace s @ evs1" and l1: "list_all (polling entry) evs1" and
    h1: "\<forall>e1. entries s1 entry = Some e1 \<longrightarrow> handler e1 \<noteq> 0 \<longrightarrow>
        (\<exists>e. entries s entry = Some e \<and> handler e = handler e1) \<or>
        (\<exists>ev \<in> set evs1. handler_store entry ev)"
    by auto
  show ?case
  proof (cases r)
    case (Inl err)
    with p t1 l1 h1 show ?thesis by auto
  next
    case (Inr u)
    from Cons.IH [of s1] obtain evs2 where
      t2: "trace (snd (perform_all acts s1)) = trace s1 @ evs2" and
      l2: "list_all (polling entry) evs2" and
      h2: "\<forall>e1. entries (snd (perform_all acts s1)) entry = Some e1 \<longrightarrow> handler e1 \<noteq> 0 \<longrightarrow>
        (\<exists>e. entries s1 entry = Some e \<and> handler e = handler e1) \<or>
        (\<exists>ev \<in> set evs2. handler_store entry ev)"
      by auto
    have pa: "perform_all (a # acts) s = perform_all acts s1"
      using p Inr by simp
    have "trace (snd (perform_all (a # acts) s)) = trace s @ (evs1 @ evs2)"
      using pa t1 t2 by simp
    moreover have "list_all (polling entry) (evs1 @ evs2)"
      using l1 l2 by simp
    moreover have "\<forall>e1. entries (snd (perform_all (a # acts) s)) entry = Some e1 \<longrightarrow>
        handler e1 \<noteq> 0 \<longrightarrow>
        (\<exists>e. entries s entry = Some e \<and> handler e = handler e1) \<or>
        (\<exists>ev \<in> set (evs1 @ evs2). handler_store entry ev)"
      unfolding pa using h1 h2 by (metis Un_iff set_append)
    ultimately show ?thesis by blast
  qed
qed

lemma poll_step:
  "\<exists>pre. list_all (polling entry) pre \<and>
     (case fst (poll env entry s) of
        Inl err \<Rightarrow> trace (snd (poll env entry s)) = trace s @ pre
      | Inr u \<Rightarrow>
          (\<exists>e1. entries (snd (poll env entry s)) entry = Some e1 \<and> handler e1 \<noteq> 0 \<and>
             trace (snd (poll env entry s)) =
               trace s @ pre @ [Load_handler memory_order_acquire entry (handler e1)] \<and>
             ((\<exists>e. entries s entry = Some e \<and> handler e = handler e1) \<or>
              (\<exists>ev \<in> set pre. handler_store entry ev))))"
proof (induction env arbitrary: s)
  case Nil
  show ?case by (rule exI [of _ "[]"]) simp
next
  case (Cons acts env)
  obtain r s1 where p: "perform_all acts s = (r, s1)" by (cases "perform_all acts s")
  from perform_all_step [of acts s entry] p obtain evs1 where
    t1: "trace s1 = trace s @ evs1" and l1: "list_all (polling entry) evs1" and
    h1: "\<forall>e1. entries s1 entry = Some e1 \<longrightarrow> handler e1 \<noteq> 0 \<longrightarrow>
        (\<exists>e. entries s entry = Some e \<and> handler e = handler e1) \<or>
        (\<exists>ev \<in> set evs1. handler_store entry ev)"
    by auto
  show ?case
  proof (cases r)
    case (Inl err)
    with p t1 l1 show ?thesis by auto
  next
    case (Inr u)
    show ?thesis
    proof (cases "entries s1 entry")
      case None
      with p Inr t1 l1 show ?thesis by auto
    next
      case (Some e1)
      show ?thesis
      proof (cases "handler e1 = 0")
        case False
        have "poll (acts # env) entry s =
                (Inr (), emit (Load_handler memory_order_acquire entry (handler e1)) s1)"
          using p Inr Some False by (simp add: Let_def)
        with t1 l1 h1 Some False show ?thesis
          by (intro exI [of _ evs1]) (auto simp: emit_def)
      next
        case True
        let ?s2 = "emit Sched_yield (emit (Load_handler memory_order_acquire entry 0) s1)"
        have pe: "poll (acts # env) entry s = poll env entry ?s2"
          using p Inr Some True by (simp add: Let_def)
        have t2: "trace ?s2 = trace s @ (evs1 @ [Load_handler memory_order_acquire entry 0, Sched_yield])"
          using t1 by (simp add: emit_def)
        have e2: "entries ?s2 = entries s1" by (simp add: emit_def)
        from Cons.IH [of ?s2] obtain pre where
          l2: "list_all (polling entry) pre" and
          c2: "case fst (poll env entry ?s2) of
                 Inl err \<Rightarrow> trace (snd (poll env entry ?s2)) = trace ?s2 @ pre
               | Inr u \<Rightarrow>
                  (\<exists>e1. entries (snd (poll env entry ?s2)) entry = Some e1 \<and> handler e1 \<noteq> 0 \<and>
                     trace (snd (poll env entry ?s2)) =
                       trace ?s2 @ pre @ [Load_handler memory_order_acquire entry (handler e1)] \<and>
                     ((\<exists>e. entries ?s2 entry = Some e \<and> handler e = handler e1) \<or>
                      (\<exists>ev \<in> set pre. handler_store entry ev)))"
          by blast
        let ?pre = "evs1 @ [Load_handler memory_order_acquire entry 0, Sched_yield] @ pre"
        have "list_all (polling entry) ?pre" using l1 l2 by simp
        moreover have "case fst (poll (acts # env) entry s) of
            Inl err \<Rightarrow> trace (snd (poll (acts # env) entry s)) = trace s @ ?pre
          | Inr u \<Rightarrow>
              (\<exists>e1. entries (snd (poll (acts # env) entry s)) entry = Some e1 \<and> handler e1 \<noteq> 0 \<and>
                 trace (snd (poll (acts # env) entry s)) =
                   trace s @ ?pre @ [Load_handler memory_order_acquire entry (handler e1)] \<and>
                 ((\<exists>e. entries s entry = Some e \<and> handler e = handler e1) \<or>
                  (\<exists>ev \<in> set ?pre. handler_store entry ev)))"
          unfolding pe using c2 t2 e2 Some True
          by (auto split: sum.splits)
        ultimately show ?thesis by blast
      qed
    qed
  qed
qed


lemma Complete_grows: "\<exists>evs. trace (snd (Complete rt entry s)) = trace s @ evs"
  by (auto simp: Complete_def Let_def emit_def trace_on_def case_prod_beta
      split: option.splits)

lemma Delete_grows: "\<exists>evs. trace (snd (Delete entry s)) = trace s @ evs"
  by (auto simp: Delete_def Let_def emit_def split: option.splits)

lemma Handler_after_poll:
  assumes "poll env entry s = (Inr u, s1)"
  shows "\<exists>evs. trace (snd (Handler rt env v entry s)) = trace s1 @ evs"
proof -
  obtain r2 s2 where c: "Complete rt entry s1 = (r2, s2)" by (cases "Complete rt entry s1")
  from Complete_grows [of rt entry s1] c obtain evs2 where t2: "trace s2 = trace s1 @ evs2"
    by auto
  show ?thesis
  proof (cases r2)
    case (Inl err)
    with assms c t2 show ?thesis by (simp add: Handler_def)
  next
    case (Inr u')
    show ?thesis
    proof (cases "entries s2 entry")
      case None
      with assms c Inr t2 show ?thesis by (simp add: Handler_def)
    next
      case (Some e)
      let ?s3 = "emit (Load_handler memory_order_seq_cst entry (handler e)) s2"
      let ?s4 = "if context_active e
                 then emit (Call_hsa_amd_signal_handler (handler e) 0 (arg e)) ?s3
                 else emit (Call_rocprofiler_handler_t (handler e) rocprofiler_group_t_init
                              (arg e)) ?s3"
      have "\<exists>evs4. trace ?s4 = trace s1 @ evs4"
        using t2 by (simp add: emit_def)
      then obtain evs4 where t4: "trace ?s4 = trace s1 @ evs4" ..
      obtain evs5 where t5: "trace (snd (Delete entry ?s4)) = trace ?s4 @ evs5"
        using Delete_grows by blast
      have "snd (Handler rt env v entry s) = snd (Delete entry ?s4)"
        using assms c Inr Some
        by (simp add: Handler_def Let_def split: prod.splits sum.splits)
      with t4 t5 show ?thesis by simp
    qed
  qed
qed

lemma Handler_shape:
  "\<exists>pre rest. events_since s (snd (Handler rt env v entry s)) = pre @ rest \<and>
     list_all (polling entry) pre \<and>
     (rest = [] \<or>
      (\<exists>h rest'. h \<noteq> 0 \<and> rest = Load_handler memory_order_acquire entry h # rest' \<and>
         ((\<exists>e. entries s entry = Some e \<and> handler e = h) \<or>
          (\<exists>ev \<in> set pre. handler_store entry ev))))"
proof -
  obtain r1 s1 where p: "poll env entry s = (r1, s1)" by (cases "poll env entry s")
  have "\<exists>pre. list_all (polling entry) pre \<and>
     (case r1 of
        Inl err \<Rightarrow> trace s1 = trace s @ pre
      | Inr u \<Rightarrow>
         (\<exists>e1. entries s1 entry = Some e1 \<and> handler e1 \<noteq> 0 \<and>
            trace s1 = trace s @ pre @ [Load_handler memory_order_acquire entry (handler e1)] \<and>
            ((\<exists>e. entries s entry = Some e \<and> handler e = handler e1) \<or>
             (\<exists>ev \<in> set pre. handler_store entry ev))))"
    using poll_step [of entry env s] by (simp only: p fst_conv snd_conv)
  then obtain pre where
    l: "list_all (polling entry) pre" and
    c: "case r1 of
          Inl err \<Rightarrow> trace s1 = trace s @ pre
        | Inr u \<Rightarrow>
           (\<exists>e1. entries s1 entry = Some e1 \<and> handler e1 \<noteq> 0 \<and>
              trace s1 = trace s @ pre @ [Load_handler memory_order_acquire entry (handler e1)] \<and>
              ((\<exists>e. entries s entry = Some e \<and> handler e = handler e1) \<or>
               (\<exists>ev \<in> set pre. handler_store entry ev)))"
    by blast
  show ?thesis
  proof (cases r1)
    case (Inl err)
    then have "events_since s (snd (Handler rt env v entry s)) = pre @ []"
      using p c by (simp add: Handler_def events_since_def)
    with l show ?thesis by blast
  next
    case (Inr u)
    from c Inr have "\<exists>e1. entries s1 entry = Some e1 \<and> handler e1 \<noteq> 0 \<and>
              trace s1 = trace s @ pre @ [Load_handler memory_order_acquire entry (handler e1)] \<and>
              ((\<exists>e. entries s entry = Some e \<and> handler e = handler e1) \<or>
               (\<exists>ev \<in> set pre. handler_store entry ev))"
      by simp
    then obtain e1 where all: "entries s1 entry = Some e1 \<and> handler e1 \<noteq> 0 \<and>
              trace s1 = trace s @ pre @ [Load_handler memory_order_acquire entry (handler e1)] \<and>
              ((\<exists>e. entries s entry = Some e \<and> handler e = handler e1) \<or>
               (\<exists>ev \<in> set pre. handler_store entry ev))" ..
    then have
      h: "handler e1 \<noteq> 0" and
      t: "trace s1 = trace s @ pre @ [Load_handler memory_order_acquire entry (handler e1)]" and
      st: "(\<exists>e. entries s entry = Some e \<and> handler e = handler e1) \<or>
           (\<exists>ev \<in> set pre. handler_store entry ev)"
      by simp_all
    from Handler_after_poll [of env entry s u s1 rt v] p Inr obtain evs where
      "trace (snd (Handler rt env v entry s)) = trace s1 @ evs" by auto
    then have "events_since s (snd (Handler rt env v entry s)) =
        pre @ (Load_handler memory_order_acquire entry (handler e1) # evs)"
      using t by (simp add: events_since_def)
    with l h st show ?thesis by blast
  qed
qed

lemma polling_not_armed_load: "polling entry ev \<Longrightarrow> \<not> armed_load entry ev"
  by (cases ev) auto

lemma poll_alone:
  "entries s entry = Some e \<Longrightarrow> handler e = 0 \<Longrightarrow>
   fst (poll (replicate n []) entry s) = Inl Still_polling"
  by (induction n arbitrary: s) (auto simp: Let_def emit_def)

subsection \<open>The invariant is kept\<close>

lemma registry_inv_iff:
  "registry_inv s \<longleftrightarrow>
     distinct (map fst (sig_list s)) \<and>
     (\<forall>n p. (n, p) \<in> set (sig_list s) \<longrightarrow>
        n < next_node s \<and> (\<exists>e. entries s p = Some e \<and> it e = It_node n))"
  by (fastforce simp: registry_inv_def list_all_iff split: option.splits)

lemma registry_inv_mono:
  assumes "registry_inv s"
    and "sig_list s' = sig_list s" and "next_node s' = next_node s"
    and "\<And>n p e. (n, p) \<in> set (sig_list s) \<Longrightarrow> entries s p = Some e \<Longrightarrow>
           \<exists>e'. entries s' p = Some e' \<and> it e' = it e"
  shows "registry_inv s'"
  unfolding registry_inv_iff
proof (intro conjI allI impI)
  show "distinct (map fst (sig_list s'))" using assms(1,2) by (simp add: registry_inv_iff)
next
  fix n p assume "(n, p) \<in> set (sig_list s')"
  then have m: "(n, p) \<in> set (sig_list s)" using assms(2) by simp
  with assms(1,3) show "n < next_node s'" by (simp add: registry_inv_iff)
  from m assms(1) obtain e where e: "entries s p = Some e" "it e = It_node n"
    by (auto simp: registry_inv_iff)
  from assms(4) [OF m e(1)] e(2) show "\<exists>e. entries s' p = Some e \<and> it e = It_node n" by auto
qed

lemma perform_inv:
  assumes inv: "registry_inv s"
  shows "registry_inv (snd (perform a s))"
proof -
  have "registry_inv (s\<lparr>entries := (entries s)(p \<mapsto> f e), trace := t\<rparr>)"
    if "entries s p = Some e" and "it (f e) = it e" for p e f t
    by (rule registry_inv_mono [OF inv]) (use that in auto)
  then show ?thesis
    using inv by (cases a) (simp_all add: emit_def split: option.splits)
qed

lemma list_erase_node:
  "distinct (map fst l) \<Longrightarrow> (n, p) \<in> set l \<Longrightarrow>
   list_erase (It_node n) l = Some (removeAll (n, p) l)"
proof (induction l)
  case Nil
  then show ?case by simp
next
  case (Cons x l)
  obtain m q where x: "x = (m, q)" by (cases x)
  show ?case
  proof (cases "m = n")
    case True
    with Cons.prems x have "q = p" by (auto simp: rev_image_eqI)
    moreover have "(n, p) \<notin> set l" using Cons.prems x True by (auto simp: rev_image_eqI)
    ultimately show ?thesis using x True by simp
  next
    case False
    with Cons x show ?thesis by auto
  qed
qed

lemma list_erase_subset: "list_erase i l = Some l' \<Longrightarrow> set l' \<subseteq> set l"
proof (induction l arbitrary: l')
  case Nil
  then show ?case by simp
next
  case (Cons x l)
  obtain m q where x: "x = (m, q)" by (cases x)
  show ?case
  proof (cases "i = It_node m")
    case True
    with Cons.prems x show ?thesis by auto
  next
    case False
    with Cons.prems x obtain l2 where l2: "list_erase i l = Some l2" "l' = (m, q) # l2"
      by (auto split: option.splits)
    with Cons.IH [OF l2(1)] x show ?thesis by auto
  qed
qed

lemma list_erase_distinct:
  "list_erase i l = Some l' \<Longrightarrow> distinct (map fst l) \<Longrightarrow> distinct (map fst l')"
proof (induction l arbitrary: l')
  case Nil
  then show ?case by simp
next
  case (Cons x l)
  obtain m q where x: "x = (m, q)" by (cases x)
  show ?case
  proof (cases "i = It_node m")
    case True
    with Cons.prems x show ?thesis by simp
  next
    case False
    with Cons.prems x obtain l2 where l2: "list_erase i l = Some l2" "l' = (m, q) # l2"
      by (auto split: option.splits)
    from list_erase_subset [OF l2(1)] have "fst ` set l2 \<subseteq> fst ` set l" by auto
    with Cons.IH [OF l2(1)] Cons.prems(2) x l2(2) show ?thesis by auto
  qed
qed

lemma list_erase_gone:
  "list_erase (It_node n) l = Some l' \<Longrightarrow> distinct (map fst l) \<Longrightarrow> n \<notin> fst ` set l'"
proof (induction l arbitrary: l')
  case Nil
  then show ?case by simp
next
  case (Cons x l)
  obtain m q where x: "x = (m, q)" by (cases x)
  show ?case
  proof (cases "m = n")
    case True
    with Cons.prems x show ?thesis by auto
  next
    case False
    with Cons.prems x obtain l2 where l2: "list_erase (It_node n) l = Some l2" "l' = (m, q) # l2"
      by (auto split: option.splits)
    with Cons.IH [OF l2(1)] Cons.prems(2) False show ?thesis by auto
  qed
qed

lemma list_erase_at_node: "list_erase i l = Some l' \<Longrightarrow> \<exists>n. i = It_node n"
proof (induction l arbitrary: l')
  case Nil
  then show ?case by simp
next
  case (Cons x l)
  obtain m q where x: "x = (m, q)" by (cases x)
  show ?case
  proof (cases "i = It_node m")
    case True
    then show ?thesis by blast
  next
    case False
    with Cons.prems x obtain l2 where "list_erase i l = Some l2"
      by (auto split: option.splits)
    with Cons.IH show ?thesis by blast
  qed
qed

lemma Tracker_inv: "registry_inv Tracker"
  by (simp add: registry_inv_def Tracker_def)

lemma emit_inv: "registry_inv (emit ev s) = registry_inv s"
  by (simp add: registry_inv_def emit_def)

lemma perform_all_inv: "registry_inv s \<Longrightarrow> registry_inv (snd (perform_all acts s))"
proof (induction acts arbitrary: s)
  case Nil
  then show ?case by simp
next
  case (Cons a acts)
  obtain r s1 where p: "perform a s = (r, s1)" by (cases "perform a s")
  have i1: "registry_inv s1" using perform_inv [OF Cons.prems, of a] p by simp
  show ?case using p i1 Cons.IH [OF i1] by (cases r) simp_all
qed

lemma poll_inv: "registry_inv s \<Longrightarrow> registry_inv (snd (poll env entry s))"
proof (induction env arbitrary: s)
  case Nil
  then show ?case by simp
next
  case (Cons acts env)
  obtain r s1 where p: "perform_all acts s = (r, s1)" by (cases "perform_all acts s")
  have i1: "registry_inv s1" using perform_all_inv [OF Cons.prems, of acts] p by simp
  show ?case
  proof (cases r)
    case (Inl err)
    with p i1 show ?thesis by simp
  next
    case (Inr u)
    show ?thesis
    proof (cases "entries s1 entry")
      case None
      with p Inr i1 show ?thesis by simp
    next
      case (Some e)
      let ?s2 = "emit (Load_handler memory_order_acquire entry (handler e)) s1"
      have i2: "registry_inv ?s2" "registry_inv (emit Sched_yield ?s2)"
        using i1 by (simp_all add: emit_inv)
      from Cons.IH [OF i2(2)] i2(1) p Inr Some show ?thesis
        by (cases "handler e = 0") (simp_all add: Let_def)
    qed
  qed
qed

lemma Complete_frame:
  "sig_list (snd (Complete rt entry s)) = sig_list s \<and>
   next_node (snd (Complete rt entry s)) = next_node s \<and>
   entries (snd (Complete rt entry s)) = entries s"
  by (simp add: Complete_def Let_def emit_def trace_on_def case_prod_beta
      split: option.splits)

lemma Complete_inv: "registry_inv s \<Longrightarrow> registry_inv (snd (Complete rt entry s))"
  using Complete_frame [of rt entry s] by (simp add: registry_inv_def)

lemma Enable_inv: "registry_inv s \<Longrightarrow> registry_inv (snd (Enable entry h a s))"
proof -
  assume inv: "registry_inv s"
  obtain r1 s1 where p1: "perform (Write_arg entry a) s = (r1, s1)"
    by (cases "perform (Write_arg entry a) s")
  obtain r2 s2 where p2: "perform (Store_handler memory_order_release entry h) s1 = (r2, s2)"
    by (cases "perform (Store_handler memory_order_release entry h) s1")
  have i1: "registry_inv s1" using perform_inv [OF inv, of "Write_arg entry a"] p1 by simp
  have i2: "registry_inv s2"
    using perform_inv [OF i1, of "Store_handler memory_order_release entry h"] p2 by simp
  show ?thesis
    using p1 p2 i1 i2 by (cases r1; cases r2) (simp_all add: Enable_def trace_on_def)
qed

lemma Enable_hsa_amd_signal_handler_inv:
  "registry_inv s \<Longrightarrow> registry_inv (snd (Enable_hsa_amd_signal_handler entry h a s))"
proof -
  assume inv: "registry_inv s"
  obtain r1 s1 where p1: "perform (Write_context_active entry True) s = (r1, s1)"
    by (cases "perform (Write_context_active entry True) s")
  have i1: "registry_inv s1"
    using perform_inv [OF inv, of "Write_context_active entry True"] p1 by simp
  show ?thesis
    using p1 i1 Enable_inv [OF i1, of entry h a]
    by (cases r1) (simp_all add: Enable_hsa_amd_signal_handler_def)
qed

lemma Delete_inv: "registry_inv s \<Longrightarrow> registry_inv (snd (Delete entry s))"
proof (cases "entries s entry")
  case None
  assume "registry_inv s"
  with None show ?thesis by (simp add: Delete_def)
next
  case (Some e)
  assume inv: "registry_inv s"
  show ?thesis
  proof (cases "list_erase (it e) (sig_list s)")
    case None
    with Some inv show ?thesis
      by (simp add: Delete_def Let_def emit_def registry_inv_def)
  next
    case l: (Some l')
    then obtain n where n: "it e = It_node n"
      using list_erase_at_node by blast
    have d: "distinct (map fst (sig_list s))" using inv by (simp add: registry_inv_iff)
    have sub: "set l' \<subseteq> set (sig_list s)" and d': "distinct (map fst l')"
      using list_erase_subset [OF l] list_erase_distinct [OF l d] by auto
    have gone: "n \<notin> fst ` set l'" using list_erase_gone l n d by auto
    have st: "sig_list (snd (Delete entry s)) = l'"
        "next_node (snd (Delete entry s)) = next_node s"
        "entries (snd (Delete entry s)) = (entries s)(entry := None)"
      using Some l by (auto simp: Delete_def Let_def emit_def)
    show ?thesis
      unfolding registry_inv_iff st
    proof (intro conjI allI impI)
      show "distinct (map fst l')" by (rule d')
    next
      fix m q assume mq: "(m, q) \<in> set l'"
      then have in_s: "(m, q) \<in> set (sig_list s)" using sub by auto
      with inv show "m < next_node s" by (auto simp: registry_inv_iff)
      from inv in_s obtain e' where e': "entries s q = Some e'" "it e' = It_node m"
        by (auto simp: registry_inv_iff)
      have "q \<noteq> entry"
      proof
        assume "q = entry"
        with e' Some n have "m = n" by simp
        with mq gone show False by (auto simp: rev_image_eqI)
      qed
      with e' show "\<exists>e. ((entries s)(entry := None)) q = Some e \<and> it e = It_node m" by simp
    qed
  qed
qed

lemma Handler_inv: "registry_inv s \<Longrightarrow> registry_inv (snd (Handler rt env v entry s))"
proof -
  assume inv: "registry_inv s"
  obtain r1 s1 where p: "poll env entry s = (r1, s1)" by (cases "poll env entry s")
  have i1: "registry_inv s1" using poll_inv [OF inv, of env entry] p by simp
  obtain r2 s2 where c: "Complete rt entry s1 = (r2, s2)" by (cases "Complete rt entry s1")
  have i2: "registry_inv s2" using Complete_inv [OF i1, of rt entry] c by simp
  show ?thesis
  proof (cases r1)
    case (Inl err)
    with p i1 show ?thesis by (simp add: Handler_def)
  next
    case r1: (Inr u)
    show ?thesis
    proof (cases r2)
      case (Inl err)
      with p c r1 i2 show ?thesis by (simp add: Handler_def)
    next
      case r2: (Inr u')
      show ?thesis
      proof (cases "entries s2 entry")
        case None
        with p c r1 r2 i2 show ?thesis by (simp add: Handler_def)
      next
        case (Some e)
        let ?s3 = "emit (Load_handler memory_order_seq_cst entry (handler e)) s2"
        let ?s4 = "if context_active e
                   then emit (Call_hsa_amd_signal_handler (handler e) 0 (arg e)) ?s3
                   else emit (Call_rocprofiler_handler_t (handler e) rocprofiler_group_t_init
                                (arg e)) ?s3"
        have i4: "registry_inv ?s4" using i2 by (simp add: emit_inv)
        have "snd (Handler rt env v entry s) = snd (Delete entry ?s4)"
          using p c r1 r2 Some
          by (simp add: Handler_def Let_def split: prod.splits sum.splits)
        with Delete_inv [OF i4, of entry] show ?thesis by simp
      qed
    qed
  qed
qed



lemma registry_inv_fresh:
  assumes "registry_inv s" and "p \<notin> dom (entries s)"
    and "sig_list s' = sig_list s" and "next_node s' = next_node s"
    and "entries s' = (entries s)(p \<mapsto> e)"
  shows "registry_inv s'"
proof (rule registry_inv_mono [OF assms(1) assms(3) assms(4)])
  fix n q e0 assume "(n, q) \<in> set (sig_list s)" and q: "entries s q = Some e0"
  with assms(2) have "q \<noteq> p" by auto
  with q assms(5) show "\<exists>e'. entries s' q = Some e' \<and> it e' = it e0" by simp
qed

lemma registry_inv_insert:
  assumes "registry_inv s" and "p \<notin> dom (entries s)"
    and "sig_list s' = (next_node s, p) # sig_list s" and "next_node s' = Suc (next_node s)"
    and "entries s' = (entries s)(p \<mapsto> e)" and "it e = It_node (next_node s)"
  shows "registry_inv s'"
proof -
  have old: "n < next_node s \<and> (\<exists>e0. entries s q = Some e0 \<and> it e0 = It_node n)"
    if "(n, q) \<in> set (sig_list s)" for n q
    using assms(1) that by (simp add: registry_inv_iff)
  have fresh: "next_node s \<notin> fst ` set (sig_list s)"
    using old by force
  have d: "distinct (map fst (sig_list s))" using assms(1) by (simp add: registry_inv_iff)
  show ?thesis
    unfolding registry_inv_iff assms(3) assms(4) assms(5)
  proof (intro conjI allI impI)
    show "distinct (map fst ((next_node s, p) # sig_list s))" using d fresh by simp
  next
    fix n q assume m: "(n, q) \<in> set ((next_node s, p) # sig_list s)"
    show "n < Suc (next_node s)" using m old by (auto simp: less_Suc_eq)
    show "\<exists>e'. ((entries s)(p \<mapsto> e)) q = Some e' \<and> it e' = It_node n"
    proof (cases "(n, q) = (next_node s, p)")
      case True
      with assms(6) show ?thesis by simp
    next
      case False
      with m have in_s: "(n, q) \<in> set (sig_list s)" by auto
      from old [OF in_s] obtain e0 where e0: "entries s q = Some e0" "it e0 = It_node n"
        by blast
      with assms(2) have "q \<noteq> p" by auto
      with e0 show ?thesis by simp
    qed
  qed
qed

lemma Alloc_inv:
  assumes inv: "registry_inv s" and fresh: "new_entry rt \<notin> dom (entries s)"
  shows "registry_inv (snd (Alloc rt agent' orig' s))"
proof (cases "new_entry rt = 0")
  case True
  then show ?thesis using inv by (simp add: Alloc_def Let_def emit_inv)
next
  case ne: False
  show ?thesis
  proof (cases "new_record rt = 0")
    case True
    show ?thesis
      by (rule registry_inv_fresh [OF inv fresh])
         (use ne True in \<open>simp_all add: Alloc_def Let_def emit_def\<close>)
  next
    case nr: False
    show ?thesis
    proof (cases "fst (hsa_signal_create rt) = 0")
      case False
      show ?thesis
        by (rule registry_inv_fresh [OF inv fresh])
           (use ne nr False in \<open>simp_all add: Alloc_def Let_def emit_def case_prod_beta\<close>)
    next
      case ok: True
      show ?thesis
      proof (cases "hsa_amd_signal_async_handler rt = 0")
        case False
        show ?thesis
          by (rule registry_inv_fresh [OF inv fresh])
             (use ne nr ok False in
               \<open>simp_all add: Alloc_def Let_def emit_def case_prod_beta\<close>)
      next
        case True
        have st: "sig_list (snd (Alloc rt agent' orig' s)) = (next_node s, new_entry rt) # sig_list s"
          "next_node (snd (Alloc rt agent' orig' s)) = Suc (next_node s)"
          "entries (snd (Alloc rt agent' orig' s)) = (entries s)(new_entry rt \<mapsto>
             entry_t_init\<lparr>agent := agent', orig := orig', record_p := new_record rt,
               signal := snd (hsa_signal_create rt), it := It_node (next_node s)\<rparr>)"
          using ne nr ok True by (simp_all add: Alloc_def Let_def emit_def case_prod_beta)
        show ?thesis
          by (rule registry_inv_insert [OF inv fresh st]) simp
      qed
    qed
  qed
qed

subsection \<open>Delete on a registry that satisfies the invariant\<close>

lemma Delete_tracked:
  assumes inv: "registry_inv s" and m: "(n, entry) \<in> set (sig_list s)"
  shows "\<exists>e. entries s entry = Some e \<and> it e = It_node n \<and>
    Delete entry s =
      (Inr (),
       s\<lparr>sig_list := removeAll (n, entry) (sig_list s),
         entries := (entries s)(entry := None),
         signals := (signals s)(handle (signal e) := None),
         trace := trace s @
           [Call_hsa_signal_destroy (signal e), Mutex_lock, List_erase (It_node n),
            Mutex_unlock, Delete_entry entry]\<rparr>)"
proof -
  from inv m obtain e where e: "entries s entry = Some e" "it e = It_node n"
    by (auto simp: registry_inv_iff)
  have d: "distinct (map fst (sig_list s))" using inv by (simp add: registry_inv_iff)
  have "list_erase (It_node n) (sig_list s) = Some (removeAll (n, entry) (sig_list s))"
    by (rule list_erase_node [OF d m])
  with e show ?thesis by (simp add: Delete_def Let_def emit_def)
qed


subsection \<open>The destructor on a registry whose first entry is armed\<close>

text \<open>
  The wait on the proxy signal of an armed entry returns after the fired callback has
  completed and deleted the entry; the iterator the destructor kept is then at no node of
  the list, and \<open>Erase(cur)\<close> dereferences it.
\<close>

lemma list_deref_absent: "n \<notin> fst ` set l \<Longrightarrow> list_deref (It_node n) l = None"
  by (induction l) auto

lemma SignalWait_fires:
  assumes e: "entries s entry = Some e"
    and armed: "handler e \<noteq> 0"
    and reg: "async_handlers s (handle (signal e)) = Some entry"
    and r: "records s (record_p e) = Some r"
    and ok: "fst (hsa_amd_profiling_get_dispatch_time rt) = HSA_STATUS_SUCCESS"
    and arr: "signal_arrives rt (signal e) (signals s) = Some mem"
    and sp: "mem (handle (signal e)) = Some sp"
    and lt: "sint (signal_value sp) < 1"
    and so: "handle (orig e) \<noteq> 0 \<longrightarrow> mem (handle (orig e)) = Some so"
    and node: "list_erase (it e) (sig_list s) = Some l"
  shows "fst (SignalWait rt (signal e) s) = Inr () \<and>
    sig_list (snd (SignalWait rt (signal e) s)) = l \<and>
    entries (snd (SignalWait rt (signal e) s)) = (entries s)(entry := None) \<and>
    async_handlers (snd (SignalWait rt (signal e) s)) =
      (async_handlers s)(handle (signal e) := None) \<and>
    trace (snd (SignalWait rt (signal e) s)) =
      trace s @
      [Call_SignalWait (signal e),
       Load_handler memory_order_acquire entry (handler e),
       Call_hsa_amd_profiling_get_dispatch_time (agent e) (signal e) HSA_STATUS_SUCCESS,
       Call_TimestampNs (TimestampNs rt)] @
      (if handle (orig e) = 0 then []
       else [Copy_start_ts (handle (orig e)) (handle (signal e)),
             Copy_end_ts (handle (orig e)) (handle (signal e)),
             Call_hsa_signal_load_relaxed (orig e) (signal_value so),
             Call_hsa_signal_store_screlease (orig e) (signal_value so - 1)]) @
      [Load_handler memory_order_seq_cst entry (handler e),
       if context_active e then Call_hsa_amd_signal_handler (handler e) 0 (arg e)
       else Call_rocprofiler_handler_t (handler e) rocprofiler_group_t_init (arg e),
       Call_hsa_signal_destroy (signal e), Mutex_lock, List_erase (it e), Mutex_unlock,
       Delete_entry entry]"
proof -
  let ?s0 = "s\<lparr>trace := trace s @ [Call_SignalWait (signal e)], signals := mem,
               async_handlers := (async_handlers s)(handle (signal e) := None)\<rparr>"
  have e0: "entries ?s0 entry = Some e" using e by simp
  have r0: "records ?s0 (record_p e) = Some r" using r by simp
  have s0: "handle (orig e) \<noteq> 0 \<longrightarrow>
      signals ?s0 (handle (orig e)) = Some so \<and> signals ?s0 (handle (signal e)) = Some sp"
    using so sp by simp
  have n0: "list_erase (it e) (sig_list ?s0) = Some l" using node by simp
  note h = Handler_armed [OF e0 armed r0 ok s0 n0, of "[]" "signal_value sp"]
  show ?thesis
    using arr sp lt reg h
    by (simp add: SignalWait_def fire_async_handler_def Let_def emit_def)
qed

lemma Tracker_destroy_armed_head:
  assumes sl: "sig_list s = (n, entry) # l"
    and d: "n \<notin> fst ` set l"
    and e: "entries s entry = Some e"
    and it: "it e = It_node n"
    and armed: "handler e \<noteq> 0"
    and reg: "async_handlers s (handle (signal e)) = Some entry"
    and r: "records s (record_p e) = Some r"
    and ok: "fst (hsa_amd_profiling_get_dispatch_time rt) = HSA_STATUS_SUCCESS"
    and arr: "signal_arrives rt (signal e) (signals s) = Some mem"
    and sp: "mem (handle (signal e)) = Some sp"
    and lt: "sint (signal_value sp) < 1"
    and so: "handle (orig e) \<noteq> 0 \<longrightarrow> mem (handle (orig e)) = Some so"
  shows "Tracker_destroy rt s = (Inl Undefined_behaviour, snd (SignalWait rt (signal e) s))"
proof -
  have node: "list_erase (it e) (sig_list s) = Some l" using sl it by simp
  note w = SignalWait_fires [OF e armed reg r ok arr sp lt so node]
  obtain s1 where s1: "SignalWait rt (signal e) s = (Inr (), s1)"
    using w by (cases "SignalWait rt (signal e) s") simp
  have "list_deref (It_node n) (sig_list s1) = None"
    using w s1 list_deref_absent [OF d] by simp
  then show ?thesis
    unfolding Tracker_destroy_def
    apply (subst Tracker_destroy_loop.simps)
    using sl e s1 by (simp add: list_begin_def)
qed


subsection \<open>The example states\<close>

lemma example_allocated_eq:
  "example_allocated =
    \<lparr>sig_list = [(0, 4096)], next_node = 1, outstanding = 0,
     entries = [4096 \<mapsto> \<lparr>it = It_node 0, agent = hsa_agent_t 7, orig = hsa_signal_t 64,
                           signal = hsa_signal_t 512, record_p = 8192, handler = 0, arg = 0,
                           context_active = False\<rparr>],
     records = [8192 \<mapsto> \<lparr>dispatch = 1000, record_begin = 0, record_end = 0, complete = 0\<rparr>],
     signals = [64 \<mapsto> \<lparr>signal_value = 1, start_ts = 0, end_ts = 0\<rparr>,
                512 \<mapsto> \<lparr>signal_value = 1, start_ts = 0, end_ts = 0\<rparr>],
     async_handlers = [512 \<mapsto> 4096],
     trace = [New_entry 4096, New_record 8192, Call_TimestampNs 1000,
              Call_hsa_signal_create 1 0 0 (hsa_signal_t 512),
              Call_hsa_amd_signal_async_handler (hsa_signal_t 512) HSA_SIGNAL_CONDITION_LT 1
                Tracker_Handler 4096 0,
              Mutex_lock, List_insert 0 4096, Mutex_unlock]\<rparr>"
  by (simp add: example_allocated_def example_world_def example_runtime_def Tracker_def
      Alloc_def Let_def emit_def entry_t_init_def record_t_init_def amd_signal_t_create_def)


lemma example_completed_eq:
  "example_completed =
    \<lparr>sig_list = [(0, 4096)], next_node = 1, outstanding = 0,
     entries = [4096 \<mapsto> \<lparr>it = It_node 0, agent = hsa_agent_t 7, orig = hsa_signal_t 64,
                           signal = hsa_signal_t 512, record_p = 8192, handler = 0, arg = 0,
                           context_active = False\<rparr>],
     records = [8192 \<mapsto> \<lparr>dispatch = 1000, record_begin = 0, record_end = 0, complete = 0\<rparr>],
     signals = [64 \<mapsto> \<lparr>signal_value = 1, start_ts = 0, end_ts = 0\<rparr>,
                512 \<mapsto> \<lparr>signal_value = 0, start_ts = 20, end_ts = 30\<rparr>],
     async_handlers = [512 \<mapsto> 4096],
     trace = [New_entry 4096, New_record 8192, Call_TimestampNs 1000,
              Call_hsa_signal_create 1 0 0 (hsa_signal_t 512),
              Call_hsa_amd_signal_async_handler (hsa_signal_t 512) HSA_SIGNAL_CONDITION_LT 1
                Tracker_Handler 4096 0,
              Mutex_lock, List_insert 0 4096, Mutex_unlock]\<rparr>"
  by (simp add: example_completed_def example_allocated_eq)

lemma example_armed_eq:
  "example_armed =
    \<lparr>sig_list = [(0, 4096)], next_node = 1, outstanding = 0,
     entries = [4096 \<mapsto> \<lparr>it = It_node 0, agent = hsa_agent_t 7, orig = hsa_signal_t 64,
                           signal = hsa_signal_t 512, record_p = 8192, handler = 77, arg = 5,
                           context_active = True\<rparr>],
     records = [8192 \<mapsto> \<lparr>dispatch = 1000, record_begin = 0, record_end = 0, complete = 0\<rparr>],
     signals = [64 \<mapsto> \<lparr>signal_value = 1, start_ts = 0, end_ts = 0\<rparr>,
                512 \<mapsto> \<lparr>signal_value = 0, start_ts = 20, end_ts = 30\<rparr>],
     async_handlers = [512 \<mapsto> 4096],
     trace = [New_entry 4096, New_record 8192, Call_TimestampNs 1000,
              Call_hsa_signal_create 1 0 0 (hsa_signal_t 512),
              Call_hsa_amd_signal_async_handler (hsa_signal_t 512) HSA_SIGNAL_CONDITION_LT 1
                Tracker_Handler 4096 0,
              Mutex_lock, List_insert 0 4096, Mutex_unlock,
              Entry_write (Write_context_active 4096 True), Entry_write (Write_arg 4096 5),
              Entry_write (Store_handler memory_order_release 4096 77)]\<rparr>"
  by (simp add: example_armed_def example_completed_eq Enable_hsa_amd_signal_handler_def
      Enable_def emit_def trace_on_def)

lemma example_null_original_eq:
  "example_null_original =
    \<lparr>sig_list = [(0, 4096)], next_node = 1, outstanding = 0,
     entries = [4096 \<mapsto> \<lparr>it = It_node 0, agent = hsa_agent_t 7, orig = hsa_signal_t 0,
                           signal = hsa_signal_t 512, record_p = 8192, handler = 77, arg = 5,
                           context_active = False\<rparr>],
     records = [8192 \<mapsto> \<lparr>dispatch = 1000, record_begin = 0, record_end = 0, complete = 0\<rparr>],
     signals = [512 \<mapsto> \<lparr>signal_value = 1, start_ts = 0, end_ts = 0\<rparr>],
     async_handlers = [512 \<mapsto> 4096],
     trace = [New_entry 4096, New_record 8192, Call_TimestampNs 1000,
              Call_hsa_signal_create 1 0 0 (hsa_signal_t 512),
              Call_hsa_amd_signal_async_handler (hsa_signal_t 512) HSA_SIGNAL_CONDITION_LT 1
                Tracker_Handler 4096 0,
              Mutex_lock, List_insert 0 4096, Mutex_unlock,
              Entry_write (Write_arg 4096 5),
              Entry_write (Store_handler memory_order_release 4096 77)]\<rparr>"
  by (simp add: example_null_original_def example_runtime_def Tracker_def
      Alloc_def Let_def emit_def entry_t_init_def record_t_init_def amd_signal_t_create_def
      Enable_rocprofiler_handler_t_def Enable_def trace_on_def)

lemma example_two_eq:
  "example_two =
    \<lparr>sig_list = [(1, 4160), (0, 4096)], next_node = 2, outstanding = 0,
     entries = [4096 \<mapsto> \<lparr>it = It_node 0, agent = hsa_agent_t 7, orig = hsa_signal_t 64,
                           signal = hsa_signal_t 512, record_p = 8192, handler = 0, arg = 0,
                           context_active = False\<rparr>,
                4160 \<mapsto> \<lparr>it = It_node 1, agent = hsa_agent_t 7, orig = hsa_signal_t 0,
                           signal = hsa_signal_t 576, record_p = 8256, handler = 0, arg = 0,
                           context_active = False\<rparr>],
     records = [8192 \<mapsto> \<lparr>dispatch = 1000, record_begin = 0, record_end = 0, complete = 0\<rparr>,
                8256 \<mapsto> \<lparr>dispatch = 1000, record_begin = 0, record_end = 0, complete = 0\<rparr>],
     signals = [64 \<mapsto> \<lparr>signal_value = 1, start_ts = 0, end_ts = 0\<rparr>,
                512 \<mapsto> \<lparr>signal_value = 1, start_ts = 0, end_ts = 0\<rparr>,
                576 \<mapsto> \<lparr>signal_value = 1, start_ts = 0, end_ts = 0\<rparr>],
     async_handlers = [512 \<mapsto> 4096, 576 \<mapsto> 4160],
     trace = [New_entry 4096, New_record 8192, Call_TimestampNs 1000,
              Call_hsa_signal_create 1 0 0 (hsa_signal_t 512),
              Call_hsa_amd_signal_async_handler (hsa_signal_t 512) HSA_SIGNAL_CONDITION_LT 1
                Tracker_Handler 4096 0,
              Mutex_lock, List_insert 0 4096, Mutex_unlock,
              New_entry 4160, New_record 8256, Call_TimestampNs 1000,
              Call_hsa_signal_create 1 0 0 (hsa_signal_t 576),
              Call_hsa_amd_signal_async_handler (hsa_signal_t 576) HSA_SIGNAL_CONDITION_LT 1
                Tracker_Handler 4160 0,
              Mutex_lock, List_insert 1 4160, Mutex_unlock]\<rparr>"
  by (simp add: example_two_def example_second_def example_allocated_eq example_runtime_def
      Alloc_def Let_def emit_def entry_t_init_def record_t_init_def amd_signal_t_create_def)

lemma example_two_inv: "registry_inv example_two"
  by (simp add: registry_inv_def example_two_eq)

lemma example_race_poll:
  "poll example_race 4096 example_completed =
    (Inr (),
     example_armed\<lparr>trace := trace example_completed @
       [Load_handler memory_order_acquire 4096 0, Sched_yield,
        Entry_write (Write_context_active 4096 True), Entry_write (Write_arg 4096 5),
        Load_handler memory_order_acquire 4096 0, Sched_yield,
        Entry_write (Store_handler memory_order_release 4096 77),
        Load_handler memory_order_acquire 4096 77]\<rparr>)"
  by (simp add: example_race_def example_completed_eq example_armed_eq Let_def emit_def)

section \<open>Alloc\<close>

text \<open>
  C4. When the allocations and the two runtime calls succeed, \<open>Alloc\<close> returns the new
  entry. The entry holds the agent and the original signal, the proxy signal the runtime
  created and its own node of the list; its handler is null and its discriminator false.
  Its record carries the timestamp \<open>TimestampNs\<close> answered during the call. The proxy
  signal is created with the initial value 1, the callback is registered on it with the
  condition \<open>HSA_SIGNAL_CONDITION_LT\<close> and the value 1 and with the entry as argument,
  and the entry is inserted at the front of the list between \<open>lock\<close> and \<open>unlock\<close>.
\<close>

theorem Alloc_creates_entry:
  assumes "new_entry rt \<noteq> 0" and "new_record rt \<noteq> 0"
    and "fst (hsa_signal_create rt) = HSA_STATUS_SUCCESS"
    and "hsa_amd_signal_async_handler rt = HSA_STATUS_SUCCESS"
  shows "fst (Alloc rt agent' orig' s) = Inr (new_entry rt) \<and>
    entries (snd (Alloc rt agent' orig' s)) (new_entry rt) =
      Some \<lparr>it = It_node (next_node s), agent = agent', orig = orig',
            signal = snd (hsa_signal_create rt), record_p = new_record rt,
            handler = 0, arg = 0, context_active = False\<rparr> \<and>
    records (snd (Alloc rt agent' orig' s)) (new_record rt) =
      Some \<lparr>dispatch = TimestampNs rt, record_begin = 0, record_end = 0, complete = 0\<rparr> \<and>
    signals (snd (Alloc rt agent' orig' s)) (handle (snd (hsa_signal_create rt))) =
      Some \<lparr>signal_value = 1, start_ts = 0, end_ts = 0\<rparr> \<and>
    sig_list (snd (Alloc rt agent' orig' s)) = (next_node s, new_entry rt) # sig_list s \<and>
    trace (snd (Alloc rt agent' orig' s)) = trace s @
      [New_entry (new_entry rt), New_record (new_record rt), Call_TimestampNs (TimestampNs rt),
       Call_hsa_signal_create 1 0 HSA_STATUS_SUCCESS (snd (hsa_signal_create rt)),
       Call_hsa_amd_signal_async_handler (snd (hsa_signal_create rt)) HSA_SIGNAL_CONDITION_LT 1
         Tracker_Handler (new_entry rt) HSA_STATUS_SUCCESS,
       Mutex_lock, List_insert (next_node s) (new_entry rt), Mutex_unlock]"
  using assms
  by (simp add: Alloc_def Let_def emit_def entry_t_init_def record_t_init_def
      amd_signal_t_create_def case_prod_beta)

theorem Alloc_creates_entry_witness:
  "new_entry example_runtime \<noteq> 0 \<and> new_record example_runtime \<noteq> 0 \<and>
   fst (hsa_signal_create example_runtime) = HSA_STATUS_SUCCESS \<and>
   hsa_amd_signal_async_handler example_runtime = HSA_STATUS_SUCCESS \<and>
   fst (Alloc example_runtime (hsa_agent_t 7) (hsa_signal_t 64) Tracker) = Inr 4096 \<and>
   sig_list (snd (Alloc example_runtime (hsa_agent_t 7) (hsa_signal_t 64) Tracker))
     = [(0, 4096)]"
  using Alloc_creates_entry [of example_runtime "hsa_agent_t 7" "hsa_signal_t 64" Tracker]
  by (simp add: example_runtime_def Tracker_def)

text \<open>
  C5. When \<open>hsa_signal_create\<close> or \<open>hsa_amd_signal_async_handler\<close> answers a status
  other than success, \<open>Alloc\<close> raises the exception of that call. The failing call is the
  last event of the trace, so nothing is done after it and it is not called again; the
  list of the registry and its node counter are what they were.
\<close>

theorem Alloc_failure_is_raised:
  assumes "new_entry rt \<noteq> 0" and "new_record rt \<noteq> 0"
    and "fst (hsa_signal_create rt) \<noteq> HSA_STATUS_SUCCESS
         \<or> hsa_amd_signal_async_handler rt \<noteq> HSA_STATUS_SUCCESS"
  shows "fst (Alloc rt agent' orig' s) =
      Inl (if fst (hsa_signal_create rt) \<noteq> HSA_STATUS_SUCCESS
           then Exception (fst (hsa_signal_create rt)) ''hsa_signal_create''
           else Exception (hsa_amd_signal_async_handler rt) ''hsa_amd_signal_async_handler'') \<and>
    sig_list (snd (Alloc rt agent' orig' s)) = sig_list s \<and>
    next_node (snd (Alloc rt agent' orig' s)) = next_node s \<and>
    trace (snd (Alloc rt agent' orig' s)) = trace s @
      [New_entry (new_entry rt), New_record (new_record rt), Call_TimestampNs (TimestampNs rt),
       Call_hsa_signal_create 1 0 (fst (hsa_signal_create rt)) (snd (hsa_signal_create rt))] @
      (if fst (hsa_signal_create rt) \<noteq> HSA_STATUS_SUCCESS then []
       else [Call_hsa_amd_signal_async_handler (snd (hsa_signal_create rt))
               HSA_SIGNAL_CONDITION_LT 1 Tracker_Handler (new_entry rt)
               (hsa_amd_signal_async_handler rt)])"
  using assms
  by (auto simp add: Alloc_def Let_def emit_def case_prod_beta)

theorem Alloc_failure_is_raised_witness:
  "fst (Alloc (example_runtime\<lparr>hsa_signal_create := (HSA_STATUS_ERROR, hsa_signal_t 0)\<rparr>)
          (hsa_agent_t 7) (hsa_signal_t 64) Tracker)
     = Inl (Exception HSA_STATUS_ERROR ''hsa_signal_create'') \<and>
   sig_list (snd (Alloc (example_runtime\<lparr>hsa_signal_create := (HSA_STATUS_ERROR, hsa_signal_t 0)\<rparr>)
          (hsa_agent_t 7) (hsa_signal_t 64) Tracker)) = [] \<and>
   fst (Alloc (example_runtime\<lparr>hsa_amd_signal_async_handler := HSA_STATUS_ERROR\<rparr>)
          (hsa_agent_t 7) (hsa_signal_t 64) Tracker)
     = Inl (Exception HSA_STATUS_ERROR ''hsa_amd_signal_async_handler'') \<and>
   sig_list (snd (Alloc (example_runtime\<lparr>hsa_amd_signal_async_handler := HSA_STATUS_ERROR\<rparr>)
          (hsa_agent_t 7) (hsa_signal_t 64) Tracker)) = []"
  using Alloc_failure_is_raised
      [of "example_runtime\<lparr>hsa_signal_create := (HSA_STATUS_ERROR, hsa_signal_t 0)\<rparr>"
          "hsa_agent_t 7" "hsa_signal_t 64" Tracker]
    Alloc_failure_is_raised
      [of "example_runtime\<lparr>hsa_amd_signal_async_handler := HSA_STATUS_ERROR\<rparr>"
          "hsa_agent_t 7" "hsa_signal_t 64" Tracker]
  by (simp add: example_runtime_def Tracker_def)

section \<open>Enable\<close>

text \<open>
  C6. On a live entry, the overload of \<open>Enable\<close> for an \<open>hsa_amd_signal_handler\<close>
  writes the discriminator, then the argument, then stores the handler with
  \<open>memory_order_release\<close>; the overload for a \<open>rocprofiler_handler_t\<close> writes the
  argument and then stores the handler. In both, the store of the handler is the last
  event of the call, and the entry ends with the three values.
\<close>

theorem Enable_stores_handler_last:
  assumes "entries s entry = Some e"
  shows "fst (Enable_hsa_amd_signal_handler entry handler' arg' s) = Inr () \<and>
    trace (snd (Enable_hsa_amd_signal_handler entry handler' arg' s)) = trace s @
      [Entry_write (Write_context_active entry True), Entry_write (Write_arg entry arg'),
       Entry_write (Store_handler memory_order_release entry handler')] \<and>
    entries (snd (Enable_hsa_amd_signal_handler entry handler' arg' s)) =
      (entries s)(entry \<mapsto> e\<lparr>context_active := True, arg := arg', handler := handler'\<rparr>) \<and>
    fst (Enable_rocprofiler_handler_t entry handler' arg' s) = Inr () \<and>
    trace (snd (Enable_rocprofiler_handler_t entry handler' arg' s)) = trace s @
      [Entry_write (Write_arg entry arg'),
       Entry_write (Store_handler memory_order_release entry handler')] \<and>
    entries (snd (Enable_rocprofiler_handler_t entry handler' arg' s)) =
      (entries s)(entry \<mapsto> e\<lparr>arg := arg', handler := handler'\<rparr>)"
  using assms
  by (simp add: Enable_hsa_amd_signal_handler_def Enable_rocprofiler_handler_t_def Enable_def
      emit_def trace_on_def)

theorem Enable_stores_handler_last_witness:
  "entries example_completed 4096 =
     Some \<lparr>it = It_node 0, agent = hsa_agent_t 7, orig = hsa_signal_t 64,
           signal = hsa_signal_t 512, record_p = 8192, handler = 0, arg = 0,
           context_active = False\<rparr> \<and>
   events_since example_completed
     (snd (Enable_hsa_amd_signal_handler 4096 77 5 example_completed)) =
     [Entry_write (Write_context_active 4096 True), Entry_write (Write_arg 4096 5),
      Entry_write (Store_handler memory_order_release 4096 77)] \<and>
   events_since example_completed
     (snd (Enable_rocprofiler_handler_t 4096 77 5 example_completed)) =
     [Entry_write (Write_arg 4096 5),
      Entry_write (Store_handler memory_order_release 4096 77)]"
  using Enable_stores_handler_last
    [of example_completed 4096
        "\<lparr>it = It_node 0, agent = hsa_agent_t 7, orig = hsa_signal_t 64,
          signal = hsa_signal_t 512, record_p = 8192, handler = 0, arg = 0,
          context_active = False\<rparr>" 77 5]
  by (simp add: example_completed_eq events_since_def)

section \<open>Complete\<close>

text \<open>
  C2. For an entry whose original signal has a handle that is not null, with its record
  and both signals in memory and a timestamp query that succeeds, \<open>Complete\<close> returns;
  afterwards the original signal holds the \<open>start_ts\<close> and \<open>end_ts\<close> of the proxy
  signal, which the proxy signal still holds, and its value is the value before minus
  one: as 64-bit words always, and as signed integers unless the value before was the
  least one. No other signal is changed. The events on the original signal are the two
  copies, then \<open>hsa_signal_load_relaxed\<close>, then \<open>hsa_signal_store_screlease\<close> of the
  loaded value minus one; there is no compare-and-swap. One thread runs the model, so no
  other writer changes the original signal during the call.
\<close>

theorem Complete_forwards_completion:
  assumes "entries s entry = Some e" and "handle (orig e) \<noteq> 0"
    and "records s (record_p e) = Some r"
    and "signals s (handle (orig e)) = Some so"
    and "signals s (handle (signal e)) = Some sp"
    and "fst (hsa_amd_profiling_get_dispatch_time rt) = HSA_STATUS_SUCCESS"
  shows "fst (Complete rt entry s) = Inr () \<and>
    signals (snd (Complete rt entry s)) (handle (orig e)) =
      Some (so\<lparr>start_ts := start_ts sp, end_ts := end_ts sp,
               signal_value := signal_value so - 1\<rparr>) \<and>
    (\<exists>sp'. signals (snd (Complete rt entry s)) (handle (signal e)) = Some sp' \<and>
           start_ts sp' = start_ts sp \<and> end_ts sp' = end_ts sp) \<and>
    (sint (signal_value so) \<noteq> - (2 ^ 63) \<longrightarrow>
       sint (signal_value so - 1) = sint (signal_value so) - 1) \<and>
    (\<forall>h. h \<noteq> handle (orig e) \<longrightarrow> signals (snd (Complete rt entry s)) h = signals s h) \<and>
    events_since s (snd (Complete rt entry s)) =
      [Call_hsa_amd_profiling_get_dispatch_time (agent e) (signal e) HSA_STATUS_SUCCESS,
       Call_TimestampNs (TimestampNs rt),
       Copy_start_ts (handle (orig e)) (handle (signal e)),
       Copy_end_ts (handle (orig e)) (handle (signal e)),
       Call_hsa_signal_load_relaxed (orig e) (signal_value so),
       Call_hsa_signal_store_screlease (orig e) (signal_value so - 1)]"
proof -
  have c: "Complete rt entry s = (Inr (), snd (Complete rt entry s))"
    and st: "signals (snd (Complete rt entry s)) =
       (signals s)(handle (orig e) \<mapsto>
          so\<lparr>start_ts := start_ts sp, end_ts := end_ts sp,
             signal_value := signal_value so - 1\<rparr>)"
    and tr: "trace (snd (Complete rt entry s)) = trace s @
      [Call_hsa_amd_profiling_get_dispatch_time (agent e) (signal e) HSA_STATUS_SUCCESS,
       Call_TimestampNs (TimestampNs rt),
       Copy_start_ts (handle (orig e)) (handle (signal e)),
       Copy_end_ts (handle (orig e)) (handle (signal e)),
       Call_hsa_signal_load_relaxed (orig e) (signal_value so),
       Call_hsa_signal_store_screlease (orig e) (signal_value so - 1)]"
    using Complete_returns [of s entry e r rt so sp] assms by simp_all
  have proxy: "\<exists>sp'. signals (snd (Complete rt entry s)) (handle (signal e)) = Some sp' \<and>
           start_ts sp' = start_ts sp \<and> end_ts sp' = end_ts sp"
    using assms(4,5) unfolding st by (cases "handle (signal e) = handle (orig e)") simp_all
  show ?thesis
    using c proxy sint_dec [of "signal_value so"]
    by (simp add: st tr events_since_def) (metis fst_conv)
qed

theorem Complete_forwards_completion_witness:
  "handle (hsa_signal_t 64) \<noteq> 0 \<and>
   signals example_completed 64 = Some \<lparr>signal_value = 1, start_ts = 0, end_ts = 0\<rparr> \<and>
   signals example_completed 512 = Some \<lparr>signal_value = 0, start_ts = 20, end_ts = 30\<rparr> \<and>
   sint (1 :: 64 word) \<noteq> - (2 ^ 63) \<and>
   fst (Complete example_runtime 4096 example_completed) = Inr () \<and>
   signals (snd (Complete example_runtime 4096 example_completed)) 64 =
     Some \<lparr>signal_value = 0, start_ts = 20, end_ts = 30\<rparr> \<and>
   signals (snd (Complete example_runtime 4096 example_completed)) 512 =
     Some \<lparr>signal_value = 0, start_ts = 20, end_ts = 30\<rparr>"
  using Complete_forwards_completion
    [of example_completed 4096
        "\<lparr>it = It_node 0, agent = hsa_agent_t 7, orig = hsa_signal_t 64,
          signal = hsa_signal_t 512, record_p = 8192, handler = 0, arg = 0,
          context_active = False\<rparr>"
        "\<lparr>dispatch = 1000, record_begin = 0, record_end = 0, complete = 0\<rparr>"
        "\<lparr>signal_value = 1, start_ts = 0, end_ts = 0\<rparr>"
        "\<lparr>signal_value = 0, start_ts = 20, end_ts = 30\<rparr>" example_runtime]
  by (simp add: example_completed_eq example_runtime_def)


section \<open>Handler\<close>

text \<open>
  C1. Whatever the arming thread does between the polls, every event of an invocation
  of \<open>Handler\<close> before its first acquire load of a handler that is not null is an
  acquire load of a null handler, a \<open>sched_yield\<close> or a write of the arming thread: no
  event of \<open>Complete\<close>, no call of the user handler, no event of \<open>Delete\<close>. When the
  handler of the entry is null at the start of the invocation, the same holds of every
  event before the first store of a handler that is not null, so the user handler is
  called only after that store; and a callback that no thread arms is still polling
  after any number of polls. The interleaving is sequentially consistent: each write and
  each load is one step.
\<close>

theorem Handler_waits_for_handler:
  "list_all (polling entry)
     (takeWhile (\<lambda>ev. \<not> armed_load entry ev)
        (events_since s (snd (Handler rt env v entry s)))) \<and>
   (\<forall>e. entries s entry = Some e \<and> handler e = 0 \<longrightarrow>
      list_all (polling entry)
        (takeWhile (\<lambda>ev. \<not> handler_store entry ev)
           (events_since s (snd (Handler rt env v entry s)))) \<and>
      (\<forall>n. fst (Handler rt (replicate n []) v entry s) = Inl Still_polling))"
proof -
  from Handler_shape [of s rt env v entry] obtain pre rest where
    ev: "events_since s (snd (Handler rt env v entry s)) = pre @ rest" and
    l: "list_all (polling entry) pre" and
    r: "rest = [] \<or>
      (\<exists>h rest'. h \<noteq> 0 \<and> rest = Load_handler memory_order_acquire entry h # rest' \<and>
         ((\<exists>e. entries s entry = Some e \<and> handler e = h) \<or>
          (\<exists>ev \<in> set pre. handler_store entry ev)))"
    by blast
  have na: "\<forall>x \<in> set pre. \<not> armed_load entry x"
    using l polling_not_armed_load by (auto simp: list_all_iff)
  have "takeWhile (\<lambda>ev. \<not> armed_load entry ev) (pre @ rest) = pre"
    using na r by (auto simp: takeWhile_append2)
  then have first: "list_all (polling entry)
     (takeWhile (\<lambda>ev. \<not> armed_load entry ev)
        (events_since s (snd (Handler rt env v entry s))))"
    using ev l by simp
  have second: "list_all (polling entry)
        (takeWhile (\<lambda>ev. \<not> handler_store entry ev)
           (events_since s (snd (Handler rt env v entry s))))"
    if "entries s entry = Some e" and "handler e = 0" for e
  proof (cases "\<exists>ev \<in> set pre. handler_store entry ev")
    case True
    then have "takeWhile (\<lambda>ev. \<not> handler_store entry ev) (pre @ rest) =
               takeWhile (\<lambda>ev. \<not> handler_store entry ev) pre"
      by (auto simp: takeWhile_append1)
    moreover have "list_all (polling entry) (takeWhile (\<lambda>ev. \<not> handler_store entry ev) pre)"
      using l by (auto simp: list_all_iff dest: set_takeWhileD)
    ultimately show ?thesis using ev by simp
  next
    case False
    with r that have "rest = []" by auto
    moreover have "list_all (polling entry) (takeWhile (\<lambda>ev. \<not> handler_store entry ev) pre)"
      using l by (auto simp: list_all_iff dest: set_takeWhileD)
    ultimately show ?thesis using ev by simp
  qed
  have third: "fst (Handler rt (replicate n []) v entry s) = Inl Still_polling"
    if "entries s entry = Some e" and "handler e = 0" for e n
    using poll_alone [OF that, of n]
    by (cases "poll (replicate n []) entry s") (simp add: Handler_def)
  from first second third show ?thesis by blast
qed

theorem Handler_waits_for_handler_witness:
  "entries example_completed 4096 =
     Some \<lparr>it = It_node 0, agent = hsa_agent_t 7, orig = hsa_signal_t 64,
           signal = hsa_signal_t 512, record_p = 8192, handler = 0, arg = 0,
           context_active = False\<rparr> \<and>
   takeWhile (\<lambda>ev. \<not> handler_store 4096 ev)
     (events_since example_completed
        (snd (Handler example_runtime example_race 0 4096 example_completed))) =
     [Load_handler memory_order_acquire 4096 0, Sched_yield,
      Entry_write (Write_context_active 4096 True), Entry_write (Write_arg 4096 5),
      Load_handler memory_order_acquire 4096 0, Sched_yield] \<and>
   list_all (polling 4096)
     (takeWhile (\<lambda>ev. \<not> handler_store 4096 ev)
        (events_since example_completed
           (snd (Handler example_runtime example_race 0 4096 example_completed)))) \<and>
   list_all (polling 4096)
     (takeWhile (\<lambda>ev. \<not> armed_load 4096 ev)
        (events_since example_completed
           (snd (Handler example_runtime example_race 0 4096 example_completed)))) \<and>
   fst (Handler example_runtime (replicate 3 []) 0 4096 example_completed) = Inl Still_polling"
  using Handler_waits_for_handler [of 4096 example_completed example_runtime example_race 0]
  by (simp add: example_completed_eq example_race_def example_runtime_def Handler_def
      Complete_def Delete_def Let_def emit_def trace_on_def events_since_def)


text \<open>
  C3. The claim fails where the timestamp query fails: on an armed entry of the registry,
  with a runtime whose \<open>hsa_amd_profiling_get_dispatch_time\<close> answers an error,
  \<open>Handler\<close> raises the exception of \<open>Complete\<close>; it does not return \<open>false\<close>, the
  user handler is not called and the entry stays in the list.
\<close>

theorem Handler_every_path_counterexample:
  "entries example_armed 4096 =
     Some \<lparr>it = It_node 0, agent = hsa_agent_t 7, orig = hsa_signal_t 64,
           signal = hsa_signal_t 512, record_p = 8192, handler = 77, arg = 5,
           context_active = True\<rparr> \<and>
   fst (Handler example_query_fails [[]] 0 4096 example_armed) =
     Inl (Exception HSA_STATUS_ERROR ''hsa_amd_profiling_get_dispatch_time'') \<and>
   fst (Handler example_query_fails [[]] 0 4096 example_armed) \<noteq> Inr False \<and>
   filter user_call
     (events_since example_armed (snd (Handler example_query_fails [[]] 0 4096 example_armed)))
     = [] \<and>
   sig_list (snd (Handler example_query_fails [[]] 0 4096 example_armed)) = [(0, 4096)]"
  by (simp add: example_armed_eq example_query_fails_def example_runtime_def Handler_def
      Complete_def Let_def emit_def trace_on_def events_since_def)

text \<open>
  C3, amended. Take any invocation in which the loop of line 182 leaves, in the state
  \<open>s1\<close>, on an entry of the registry with its record and signals in memory. When the
  timestamp query succeeds, \<open>Handler\<close> returns \<open>false\<close>; after the loop its events are
  those of \<open>Complete\<close>, then the load of the handler and the one call of the user
  handler, then those of \<open>Delete\<close>; the entry is out of the list and freed. When the
  query fails, \<open>Handler\<close> raises the exception of \<open>Complete\<close> right after the query:
  no call of the user handler, the entry still in the list and live.
\<close>

theorem Handler_order:
  assumes "poll env entry s = (Inr (), s1)"
    and "entries s1 entry = Some e"
    and "records s1 (record_p e) = Some r"
    and "handle (orig e) \<noteq> 0 \<longrightarrow>
           signals s1 (handle (orig e)) = Some so \<and> signals s1 (handle (signal e)) = Some sp"
    and "list_erase (it e) (sig_list s1) = Some l"
  shows "(fst (hsa_amd_profiling_get_dispatch_time rt) = HSA_STATUS_SUCCESS \<longrightarrow>
      fst (Handler rt env v entry s) = Inr False \<and>
      events_since s1 (snd (Handler rt env v entry s)) =
        [Call_hsa_amd_profiling_get_dispatch_time (agent e) (signal e) HSA_STATUS_SUCCESS,
         Call_TimestampNs (TimestampNs rt)] @
        (if handle (orig e) = 0 then []
         else [Copy_start_ts (handle (orig e)) (handle (signal e)),
               Copy_end_ts (handle (orig e)) (handle (signal e)),
               Call_hsa_signal_load_relaxed (orig e) (signal_value so),
               Call_hsa_signal_store_screlease (orig e) (signal_value so - 1)]) @
        [Load_handler memory_order_seq_cst entry (handler e),
         if context_active e then Call_hsa_amd_signal_handler (handler e) 0 (arg e)
         else Call_rocprofiler_handler_t (handler e) rocprofiler_group_t_init (arg e),
         Call_hsa_signal_destroy (signal e), Mutex_lock, List_erase (it e), Mutex_unlock,
         Delete_entry entry] \<and>
      length (filter user_call (events_since s1 (snd (Handler rt env v entry s)))) = 1 \<and>
      sig_list (snd (Handler rt env v entry s)) = l \<and>
      entries (snd (Handler rt env v entry s)) entry = None) \<and>
    (fst (hsa_amd_profiling_get_dispatch_time rt) \<noteq> HSA_STATUS_SUCCESS \<longrightarrow>
      fst (Handler rt env v entry s) =
        Inl (Exception (fst (hsa_amd_profiling_get_dispatch_time rt))
               ''hsa_amd_profiling_get_dispatch_time'') \<and>
      events_since s1 (snd (Handler rt env v entry s)) =
        [Call_hsa_amd_profiling_get_dispatch_time (agent e) (signal e)
           (fst (hsa_amd_profiling_get_dispatch_time rt))] \<and>
      sig_list (snd (Handler rt env v entry s)) = sig_list s1 \<and>
      entries (snd (Handler rt env v entry s)) entry = Some e)"
proof (intro conjI impI)
  assume ok: "fst (hsa_amd_profiling_get_dispatch_time rt) = HSA_STATUS_SUCCESS"
  note h = Handler_proceeds [OF assms(1) assms(2) assms(3) ok assms(4) assms(5), of v]
  show "fst (Handler rt env v entry s) = Inr False" by (simp add: h)
  show "events_since s1 (snd (Handler rt env v entry s)) =
        [Call_hsa_amd_profiling_get_dispatch_time (agent e) (signal e) HSA_STATUS_SUCCESS,
         Call_TimestampNs (TimestampNs rt)] @
        (if handle (orig e) = 0 then []
         else [Copy_start_ts (handle (orig e)) (handle (signal e)),
               Copy_end_ts (handle (orig e)) (handle (signal e)),
               Call_hsa_signal_load_relaxed (orig e) (signal_value so),
               Call_hsa_signal_store_screlease (orig e) (signal_value so - 1)]) @
        [Load_handler memory_order_seq_cst entry (handler e),
         if context_active e then Call_hsa_amd_signal_handler (handler e) 0 (arg e)
         else Call_rocprofiler_handler_t (handler e) rocprofiler_group_t_init (arg e),
         Call_hsa_signal_destroy (signal e), Mutex_lock, List_erase (it e), Mutex_unlock,
         Delete_entry entry]"
    by (simp add: h events_since_def)
  show "length (filter user_call (events_since s1 (snd (Handler rt env v entry s)))) = 1"
    by (simp add: h events_since_def)
  show "sig_list (snd (Handler rt env v entry s)) = l" by (simp add: h)
  show "entries (snd (Handler rt env v entry s)) entry = None" by (simp add: h)
next
  assume bad: "fst (hsa_amd_profiling_get_dispatch_time rt) \<noteq> HSA_STATUS_SUCCESS"
  note h = Handler_raises [OF assms(1) assms(2) bad, of v]
  show "fst (Handler rt env v entry s) =
        Inl (Exception (fst (hsa_amd_profiling_get_dispatch_time rt))
               ''hsa_amd_profiling_get_dispatch_time'')"
    by (simp add: h)
  show "events_since s1 (snd (Handler rt env v entry s)) =
        [Call_hsa_amd_profiling_get_dispatch_time (agent e) (signal e)
           (fst (hsa_amd_profiling_get_dispatch_time rt))]"
    by (simp add: h events_since_def)
  show "sig_list (snd (Handler rt env v entry s)) = sig_list s1" by (simp add: h)
  show "entries (snd (Handler rt env v entry s)) entry = Some e"
    using assms(2) by (simp add: h)
qed

theorem Handler_order_witness:
  "fst (poll example_race 4096 example_completed) = Inr () \<and>
   fst (Handler example_runtime example_race 0 4096 example_completed) = Inr False \<and>
   events_since (snd (poll example_race 4096 example_completed))
     (snd (Handler example_runtime example_race 0 4096 example_completed)) =
     [Call_hsa_amd_profiling_get_dispatch_time (hsa_agent_t 7) (hsa_signal_t 512) 0,
      Call_TimestampNs 1000, Copy_start_ts 64 512, Copy_end_ts 64 512,
      Call_hsa_signal_load_relaxed (hsa_signal_t 64) 1,
      Call_hsa_signal_store_screlease (hsa_signal_t 64) 0,
      Load_handler memory_order_seq_cst 4096 77, Call_hsa_amd_signal_handler 77 0 5,
      Call_hsa_signal_destroy (hsa_signal_t 512), Mutex_lock, List_erase (It_node 0),
      Mutex_unlock, Delete_entry 4096] \<and>
   sig_list (snd (Handler example_runtime example_race 0 4096 example_completed)) = [] \<and>
   fst (Handler example_query_fails example_race 0 4096 example_completed) =
     Inl (Exception HSA_STATUS_ERROR ''hsa_amd_profiling_get_dispatch_time'') \<and>
   sig_list (snd (Handler example_query_fails example_race 0 4096 example_completed)) =
     [(0, 4096)]"
proof -
  let ?e = "\<lparr>it = It_node 0, agent = hsa_agent_t 7, orig = hsa_signal_t 64,
          signal = hsa_signal_t 512, record_p = 8192, handler = 77, arg = 5,
          context_active = True\<rparr>"
  let ?r = "\<lparr>dispatch = 1000, record_begin = 0, record_end = 0, complete = 0\<rparr>"
  let ?so = "\<lparr>signal_value = 1, start_ts = 0, end_ts = 0\<rparr>"
  let ?sp = "\<lparr>signal_value = 0, start_ts = 20, end_ts = 30\<rparr>"
  note p = example_race_poll
  have e: "entries (snd (poll example_race 4096 example_completed)) 4096 = Some ?e"
    and r: "records (snd (poll example_race 4096 example_completed)) (record_p ?e) = Some ?r"
    and sg: "handle (orig ?e) \<noteq> 0 \<longrightarrow>
       signals (snd (poll example_race 4096 example_completed)) (handle (orig ?e)) = Some ?so \<and>
       signals (snd (poll example_race 4096 example_completed)) (handle (signal ?e)) = Some ?sp"
    and n: "list_erase (it ?e) (sig_list (snd (poll example_race 4096 example_completed)))
              = Some []"
    by (simp_all add: p example_armed_eq)
  have pp: "poll example_race 4096 example_completed =
              (Inr (), snd (poll example_race 4096 example_completed))"
    by (simp add: p)
  have q: "fst (poll example_race 4096 example_completed) = Inr ()"
    by (simp add: p)
  show ?thesis
    using Handler_order [OF pp e r sg n, of example_runtime 0]
      Handler_order [OF pp e r sg n, of example_query_fails 0] q
    by (simp add: example_runtime_def example_query_fails_def p example_armed_eq)
qed

text \<open>
  C7. On an armed entry of the registry whose completion succeeds, \<open>Handler\<close> makes
  exactly one call of the user handler: with the status 0 and the stored argument when
  \<open>context_active\<close> is set, with a zero \<open>rocprofiler_group_t\<close> and the stored argument
  otherwise. After the \<open>Enable\<close> for an \<open>hsa_amd_signal_handler\<close> it is the first call,
  with the handler and argument given to \<open>Enable\<close>; after the \<open>Enable\<close> for a
  \<open>rocprofiler_handler_t\<close>, on an entry whose discriminator is still false as \<open>Alloc\<close>
  left it, it is the second.
\<close>

theorem Handler_calls_selected_convention:
  assumes "entries s entry = Some e"
    and "records s (record_p e) = Some r"
    and "fst (hsa_amd_profiling_get_dispatch_time rt) = HSA_STATUS_SUCCESS"
    and "handle (orig e) \<noteq> 0 \<longrightarrow>
           signals s (handle (orig e)) = Some so \<and> signals s (handle (signal e)) = Some sp"
    and "list_erase (it e) (sig_list s) = Some l"
  shows "(handler e \<noteq> 0 \<longrightarrow>
      filter user_call (events_since s (snd (Handler rt ([] # env) v entry s))) =
        [if context_active e then Call_hsa_amd_signal_handler (handler e) 0 (arg e)
         else Call_rocprofiler_handler_t (handler e)
                \<lparr>index = 0, features = 0, feature_count = 0, group_context = 0\<rparr> (arg e)]) \<and>
    (h \<noteq> 0 \<longrightarrow>
      filter user_call
        (events_since s
           (snd (Handler rt ([] # env) v entry
                   (snd (Enable_hsa_amd_signal_handler entry h a s))))) =
        [Call_hsa_amd_signal_handler h 0 a]) \<and>
    (h \<noteq> 0 \<and> \<not> context_active e \<longrightarrow>
      filter user_call
        (events_since s
           (snd (Handler rt ([] # env) v entry
                   (snd (Enable_rocprofiler_handler_t entry h a s))))) =
        [Call_rocprofiler_handler_t h
           \<lparr>index = 0, features = 0, feature_count = 0, group_context = 0\<rparr> a])"
proof (intro conjI impI)
  assume armed: "handler e \<noteq> 0"
  show "filter user_call (events_since s (snd (Handler rt ([] # env) v entry s))) =
        [if context_active e then Call_hsa_amd_signal_handler (handler e) 0 (arg e)
         else Call_rocprofiler_handler_t (handler e)
                \<lparr>index = 0, features = 0, feature_count = 0, group_context = 0\<rparr> (arg e)]"
    using Handler_armed [OF assms(1) armed assms(2) assms(3) assms(4) assms(5), of env v]
    by (simp add: events_since_def rocprofiler_group_t_init_def)
next
  assume h: "h \<noteq> 0"
  let ?s = "snd (Enable_hsa_amd_signal_handler entry h a s)"
  let ?e = "e\<lparr>context_active := True, arg := a, handler := h\<rparr>"
  have st: "?s = s\<lparr>entries := (entries s)(entry \<mapsto> ?e),
               trace := trace s @
                 [Entry_write (Write_context_active entry True),
                  Entry_write (Write_arg entry a),
                  Entry_write (Store_handler memory_order_release entry h)]\<rparr>"
    using assms(1)
    by (simp add: Enable_hsa_amd_signal_handler_def Enable_def emit_def trace_on_def)
  have "Handler rt ([] # env) v entry ?s = (Inr False, snd (Handler rt ([] # env) v entry ?s))"
    and "trace (snd (Handler rt ([] # env) v entry ?s)) = trace ?s @
         [Load_handler memory_order_acquire entry h,
          Call_hsa_amd_profiling_get_dispatch_time (agent e) (signal e) 0,
          Call_TimestampNs (TimestampNs rt)] @
         (if handle (orig e) = 0 then []
          else [Copy_start_ts (handle (orig e)) (handle (signal e)),
                Copy_end_ts (handle (orig e)) (handle (signal e)),
                Call_hsa_signal_load_relaxed (orig e) (signal_value so),
                Call_hsa_signal_store_screlease (orig e) (signal_value so - 1)]) @
         [Load_handler memory_order_seq_cst entry h, Call_hsa_amd_signal_handler h 0 a,
          Call_hsa_signal_destroy (signal e), Mutex_lock, List_erase (it e), Mutex_unlock,
          Delete_entry entry]"
    using Handler_armed [of ?s entry ?e r rt so sp l env v] assms h
    by (simp_all add: st)
  then show "filter user_call (events_since s (snd (Handler rt ([] # env) v entry ?s))) =
        [Call_hsa_amd_signal_handler h 0 a]"
    by (simp add: st events_since_def)
next
  assume "h \<noteq> 0 \<and> \<not> context_active e"
  then have h: "h \<noteq> 0" and simple: "\<not> context_active e" by simp_all
  let ?s = "snd (Enable_rocprofiler_handler_t entry h a s)"
  let ?e = "e\<lparr>arg := a, handler := h\<rparr>"
  have st: "?s = s\<lparr>entries := (entries s)(entry \<mapsto> ?e),
               trace := trace s @
                 [Entry_write (Write_arg entry a),
                  Entry_write (Store_handler memory_order_release entry h)]\<rparr>"
    using assms(1)
    by (simp add: Enable_rocprofiler_handler_t_def Enable_def emit_def trace_on_def)
  have "trace (snd (Handler rt ([] # env) v entry ?s)) = trace ?s @
         [Load_handler memory_order_acquire entry h,
          Call_hsa_amd_profiling_get_dispatch_time (agent e) (signal e) 0,
          Call_TimestampNs (TimestampNs rt)] @
         (if handle (orig e) = 0 then []
          else [Copy_start_ts (handle (orig e)) (handle (signal e)),
                Copy_end_ts (handle (orig e)) (handle (signal e)),
                Call_hsa_signal_load_relaxed (orig e) (signal_value so),
                Call_hsa_signal_store_screlease (orig e) (signal_value so - 1)]) @
         [Load_handler memory_order_seq_cst entry h,
          Call_rocprofiler_handler_t h rocprofiler_group_t_init a,
          Call_hsa_signal_destroy (signal e), Mutex_lock, List_erase (it e), Mutex_unlock,
          Delete_entry entry]"
    using Handler_armed [of ?s entry ?e r rt so sp l env v] assms h simple
    by (simp_all add: st)
  then show "filter user_call (events_since s (snd (Handler rt ([] # env) v entry ?s))) =
        [Call_rocprofiler_handler_t h
           \<lparr>index = 0, features = 0, feature_count = 0, group_context = 0\<rparr> a]"
    by (simp add: st events_since_def rocprofiler_group_t_init_def)
qed

theorem Handler_calls_selected_convention_witness:
  "filter user_call
     (events_since example_completed
        (snd (Handler example_runtime [[]] 0 4096
                (snd (Enable_hsa_amd_signal_handler 4096 77 5 example_completed))))) =
     [Call_hsa_amd_signal_handler 77 0 5] \<and>
   filter user_call
     (events_since example_completed
        (snd (Handler example_runtime [[]] 0 4096
                (snd (Enable_rocprofiler_handler_t 4096 77 5 example_completed))))) =
     [Call_rocprofiler_handler_t 77
        \<lparr>index = 0, features = 0, feature_count = 0, group_context = 0\<rparr> 5] \<and>
   filter user_call
     (events_since example_armed (snd (Handler example_runtime [[]] 0 4096 example_armed))) =
     [Call_hsa_amd_signal_handler 77 0 5]"
  using Handler_calls_selected_convention
    [where s = example_completed and entry = 4096 and rt = example_runtime and l = "[]"
       and env = "[]" and v = 0 and h = 77 and a = 5
       and e = "\<lparr>it = It_node 0, agent = hsa_agent_t 7, orig = hsa_signal_t 64,
          signal = hsa_signal_t 512, record_p = 8192, handler = 0, arg = 0,
          context_active = False\<rparr>"
       and r = "\<lparr>dispatch = 1000, record_begin = 0, record_end = 0, complete = 0\<rparr>"
       and so = "\<lparr>signal_value = 1, start_ts = 0, end_ts = 0\<rparr>"
       and sp = "\<lparr>signal_value = 0, start_ts = 20, end_ts = 30\<rparr>"]
    Handler_calls_selected_convention
    [where s = example_armed and entry = 4096 and rt = example_runtime and l = "[]"
       and env = "[]" and v = 0 and h = 77 and a = 5
       and e = "\<lparr>it = It_node 0, agent = hsa_agent_t 7, orig = hsa_signal_t 64,
          signal = hsa_signal_t 512, record_p = 8192, handler = 77, arg = 5,
          context_active = True\<rparr>"
       and r = "\<lparr>dispatch = 1000, record_begin = 0, record_end = 0, complete = 0\<rparr>"
       and so = "\<lparr>signal_value = 1, start_ts = 0, end_ts = 0\<rparr>"
       and sp = "\<lparr>signal_value = 0, start_ts = 20, end_ts = 30\<rparr>"]
  by (simp add: example_completed_eq example_armed_eq example_runtime_def)

text \<open>
  C9. For an entry whose original signal has a null handle, \<open>Complete\<close> leaves the
  signal memory as it was and none of its events reads or writes an original signal, on
  every path. On an armed entry of the registry with a successful query the callback
  then runs as usual: the record gets its three timestamps, the user handler is called
  once with the stored argument, the entry is removed and freed, and the only change to
  the signal memory is the destruction of the proxy signal.
\<close>

theorem Handler_skips_null_original:
  assumes "entries s entry = Some e" and "handle (orig e) = 0"
  shows "signals (snd (Complete rt entry s)) = signals s \<and>
    list_all (\<lambda>ev. \<not> original_access ev) (events_since s (snd (Complete rt entry s))) \<and>
    (handler e \<noteq> 0 \<and> records s (record_p e) = Some r \<and>
     fst (hsa_amd_profiling_get_dispatch_time rt) = HSA_STATUS_SUCCESS \<and>
     list_erase (it e) (sig_list s) = Some l \<longrightarrow>
       fst (Handler rt ([] # env) v entry s) = Inr False \<and>
       events_since s (snd (Handler rt ([] # env) v entry s)) =
         [Load_handler memory_order_acquire entry (handler e),
          Call_hsa_amd_profiling_get_dispatch_time (agent e) (signal e) HSA_STATUS_SUCCESS,
          Call_TimestampNs (TimestampNs rt),
          Load_handler memory_order_seq_cst entry (handler e),
          if context_active e then Call_hsa_amd_signal_handler (handler e) 0 (arg e)
          else Call_rocprofiler_handler_t (handler e) rocprofiler_group_t_init (arg e),
          Call_hsa_signal_destroy (signal e), Mutex_lock, List_erase (it e), Mutex_unlock,
          Delete_entry entry] \<and>
       signals (snd (Handler rt ([] # env) v entry s)) =
         (signals s)(handle (signal e) := None) \<and>
       records (snd (Handler rt ([] # env) v entry s)) (record_p e) =
         Some (r\<lparr>record_begin :=
                    SysclockToNs rt
                      (dispatch_start (snd (hsa_amd_profiling_get_dispatch_time rt))),
                  record_end :=
                    SysclockToNs rt
                      (dispatch_end (snd (hsa_amd_profiling_get_dispatch_time rt))),
                  complete := TimestampNs rt\<rparr>) \<and>
       sig_list (snd (Handler rt ([] # env) v entry s)) = l \<and>
       entries (snd (Handler rt ([] # env) v entry s)) entry = None)"
proof (intro conjI impI)
  show "signals (snd (Complete rt entry s)) = signals s"
    and "list_all (\<lambda>ev. \<not> original_access ev) (events_since s (snd (Complete rt entry s)))"
    using Complete_null_original [OF assms, of rt] by simp_all
next
  assume a: "handler e \<noteq> 0 \<and> records s (record_p e) = Some r \<and>
     fst (hsa_amd_profiling_get_dispatch_time rt) = HSA_STATUS_SUCCESS \<and>
     list_erase (it e) (sig_list s) = Some l"
  fix so sp :: amd_signal_t
  have sg: "handle (orig e) \<noteq> 0 \<longrightarrow>
     signals s (handle (orig e)) = Some so \<and> signals s (handle (signal e)) = Some sp"
    using assms(2) by simp
  note h = Handler_armed [OF assms(1) _ _ _ sg, of r rt l env v]
  show "fst (Handler rt ([] # env) v entry s) = Inr False" using a by (simp add: h)
  show "events_since s (snd (Handler rt ([] # env) v entry s)) =
         [Load_handler memory_order_acquire entry (handler e),
          Call_hsa_amd_profiling_get_dispatch_time (agent e) (signal e) HSA_STATUS_SUCCESS,
          Call_TimestampNs (TimestampNs rt),
          Load_handler memory_order_seq_cst entry (handler e),
          if context_active e then Call_hsa_amd_signal_handler (handler e) 0 (arg e)
          else Call_rocprofiler_handler_t (handler e) rocprofiler_group_t_init (arg e),
          Call_hsa_signal_destroy (signal e), Mutex_lock, List_erase (it e), Mutex_unlock,
          Delete_entry entry]"
    using a assms(2) by (simp add: h events_since_def)
  show "signals (snd (Handler rt ([] # env) v entry s)) = (signals s)(handle (signal e) := None)"
    using a assms(2) by (simp add: h)
  show "records (snd (Handler rt ([] # env) v entry s)) (record_p e) =
         Some (r\<lparr>record_begin :=
                    SysclockToNs rt
                      (dispatch_start (snd (hsa_amd_profiling_get_dispatch_time rt))),
                  record_end :=
                    SysclockToNs rt
                      (dispatch_end (snd (hsa_amd_profiling_get_dispatch_time rt))),
                  complete := TimestampNs rt\<rparr>)"
    using a by (simp add: h)
  show "sig_list (snd (Handler rt ([] # env) v entry s)) = l" using a by (simp add: h)
  show "entries (snd (Handler rt ([] # env) v entry s)) entry = None" using a by (simp add: h)
qed

theorem Handler_skips_null_original_witness:
  "entries example_null_original 4096 =
     Some \<lparr>it = It_node 0, agent = hsa_agent_t 7, orig = hsa_signal_t 0,
           signal = hsa_signal_t 512, record_p = 8192, handler = 77, arg = 5,
           context_active = False\<rparr> \<and>
   handle (hsa_signal_t 0) = 0 \<and>
   signals (snd (Complete example_runtime 4096 example_null_original)) =
     signals example_null_original \<and>
   fst (Handler example_runtime [[]] 0 4096 example_null_original) = Inr False \<and>
   events_since example_null_original
     (snd (Handler example_runtime [[]] 0 4096 example_null_original)) =
     [Load_handler memory_order_acquire 4096 77,
      Call_hsa_amd_profiling_get_dispatch_time (hsa_agent_t 7) (hsa_signal_t 512) 0,
      Call_TimestampNs 1000, Load_handler memory_order_seq_cst 4096 77,
      Call_rocprofiler_handler_t 77
        \<lparr>index = 0, features = 0, feature_count = 0, group_context = 0\<rparr> 5,
      Call_hsa_signal_destroy (hsa_signal_t 512), Mutex_lock, List_erase (It_node 0),
      Mutex_unlock, Delete_entry 4096] \<and>
   sig_list (snd (Handler example_runtime [[]] 0 4096 example_null_original)) = []"
  using Handler_skips_null_original
    [where s = example_null_original and entry = 4096 and rt = example_runtime and l = "[]"
       and env = "[]" and v = 0
       and e = "\<lparr>it = It_node 0, agent = hsa_agent_t 7, orig = hsa_signal_t 0,
          signal = hsa_signal_t 512, record_p = 8192, handler = 77, arg = 5,
          context_active = False\<rparr>"
       and r = "\<lparr>dispatch = 1000, record_begin = 0, record_end = 0, complete = 0\<rparr>"]
  by (simp add: example_null_original_eq example_runtime_def rocprofiler_group_t_init_def)

section \<open>The destructor\<close>

text \<open>
  C8. The destructor visits each entry of the list, waits on its proxy signal and then
  erases it (lines 69 to 75). The wait makes the runtime fire the callback that \<open>Alloc\<close>
  registered on that signal (line 98), and the callback ends by deleting its entry
  (line 197). So the destructor does not remove the entry once and complete: on a
  registry that holds one armed entry whose dispatch has completed, the destructor
  waits, the fired callback runs \<open>Complete\<close>, calls the handler and deletes the entry,
  and \<open>Erase(cur)\<close> of line 74 then dereferences an iterator whose node has left the
  list, for an entry that is freed: \<open>Delete\<close> on it is a second \<open>hsa_signal_destroy\<close>,
  a second \<open>erase\<close> and a second \<open>delete\<close>. The trace of the destructor holds one
  deletion, the one of \<open>Handler\<close>, and the destructor ends in undefined behaviour.
  Lemma \<open>Tracker_destroy_armed_head\<close> shows the same end for every registry whose first
  entry is armed.
\<close>

theorem Tracker_destroy_erases_deleted_entry:
  "list_begin (sig_list example_armed) = It_node 0 \<and>
   list_deref (It_node 0) (sig_list example_armed) = Some 4096 \<and>
   async_handlers example_armed 512 = Some 4096 \<and>
   fst (Tracker_destroy example_shutdown example_armed) = Inl Undefined_behaviour \<and>
   events_since example_armed (snd (Tracker_destroy example_shutdown example_armed)) =
     [Call_SignalWait (hsa_signal_t 512),
      Load_handler memory_order_acquire 4096 77,
      Call_hsa_amd_profiling_get_dispatch_time (hsa_agent_t 7) (hsa_signal_t 512)
        HSA_STATUS_SUCCESS,
      Call_TimestampNs 1000,
      Copy_start_ts 64 512, Copy_end_ts 64 512,
      Call_hsa_signal_load_relaxed (hsa_signal_t 64) 1,
      Call_hsa_signal_store_screlease (hsa_signal_t 64) 0,
      Load_handler memory_order_seq_cst 4096 77,
      Call_hsa_amd_signal_handler 77 0 5,
      Call_hsa_signal_destroy (hsa_signal_t 512),
      Mutex_lock, List_erase (It_node 0), Mutex_unlock,
      Delete_entry 4096] \<and>
   list_deref (It_node 0) (sig_list (snd (Tracker_destroy example_shutdown example_armed)))
     = None \<and>
   entries (snd (Tracker_destroy example_shutdown example_armed)) 4096 = None \<and>
   signals (snd (Tracker_destroy example_shutdown example_armed)) 512 = None \<and>
   fst (Delete 4096 (snd (Tracker_destroy example_shutdown example_armed)))
     = Inl Undefined_behaviour"
  apply (simp add: Tracker_destroy_def example_armed_eq events_since_def)
  apply (subst Tracker_destroy_loop.simps)
  apply (simp add: example_shutdown_def example_runtime_def SignalWait_def
      fire_async_handler_def Handler_def Complete_def Delete_def Let_def emit_def
      trace_on_def list_begin_def)
  done


section \<open>The iterators stored in the entries\<close>

text \<open>
  C10. The invariant of the registry (the nodes of the list are distinct, and the member
  \<open>it\<close> of the entry at a node is the iterator at that node) holds of the tracker as
  constructed and is kept by \<open>Alloc\<close> (for a pointer that \<open>new\<close> returns fresh),
  \<open>Enable\<close>, \<open>Handler\<close> and \<open>Delete\<close>. Under it, \<open>Delete\<close> of an entry of the list
  erases the node the entry stores, between \<open>lock\<close> and \<open>unlock\<close>; the list loses
  exactly that node, and every other node stays in the list with its entry unchanged, so
  with a valid iterator.
\<close>

theorem registry_iterators:
  "registry_inv Tracker \<and>
   (registry_inv s \<longrightarrow>
      (new_entry rt \<notin> dom (entries s) \<longrightarrow> registry_inv (snd (Alloc rt agent' orig' s))) \<and>
      registry_inv (snd (Enable_hsa_amd_signal_handler entry h a s)) \<and>
      registry_inv (snd (Enable_rocprofiler_handler_t entry h a s)) \<and>
      registry_inv (snd (Handler rt env v entry s)) \<and>
      registry_inv (snd (Delete entry s)) \<and>
      (\<forall>n. (n, entry) \<in> set (sig_list s) \<longrightarrow>
         (\<exists>e. entries s entry = Some e \<and> it e = It_node n \<and>
              events_since s (snd (Delete entry s)) =
                [Call_hsa_signal_destroy (signal e), Mutex_lock, List_erase (It_node n),
                 Mutex_unlock, Delete_entry entry]) \<and>
         fst (Delete entry s) = Inr () \<and>
         sig_list (snd (Delete entry s)) = removeAll (n, entry) (sig_list s) \<and>
         length (sig_list (snd (Delete entry s))) + 1 = length (sig_list s) \<and>
         entries (snd (Delete entry s)) entry = None \<and>
         (\<forall>m q. (m, q) \<in> set (sig_list s) \<and> (m, q) \<noteq> (n, entry) \<longrightarrow>
            (m, q) \<in> set (sig_list (snd (Delete entry s))) \<and>
            entries (snd (Delete entry s)) q = entries s q)))"
proof (intro conjI impI allI)
  show "registry_inv Tracker" by (rule Tracker_inv)
next
  assume "registry_inv s" and "new_entry rt \<notin> dom (entries s)"
  then show "registry_inv (snd (Alloc rt agent' orig' s))" by (rule Alloc_inv)
next
  assume "registry_inv s"
  then show "registry_inv (snd (Enable_hsa_amd_signal_handler entry h a s))"
    by (rule Enable_hsa_amd_signal_handler_inv)
next
  assume "registry_inv s"
  then show "registry_inv (snd (Enable_rocprofiler_handler_t entry h a s))"
    unfolding Enable_rocprofiler_handler_t_def by (rule Enable_inv)
next
  assume "registry_inv s"
  then show "registry_inv (snd (Handler rt env v entry s))" by (rule Handler_inv)
next
  assume "registry_inv s"
  then show "registry_inv (snd (Delete entry s))" by (rule Delete_inv)
next
  fix n assume inv: "registry_inv s" and m: "(n, entry) \<in> set (sig_list s)"
  from Delete_tracked [OF inv m] obtain e where
    e: "entries s entry = Some e" "it e = It_node n" and
    del: "Delete entry s =
      (Inr (),
       s\<lparr>sig_list := removeAll (n, entry) (sig_list s),
         entries := (entries s)(entry := None),
         signals := (signals s)(handle (signal e) := None),
         trace := trace s @
           [Call_hsa_signal_destroy (signal e), Mutex_lock, List_erase (It_node n),
            Mutex_unlock, Delete_entry entry]\<rparr>)"
    by blast
  have d: "distinct (map fst (sig_list s))" using inv by (simp add: registry_inv_iff)
  then have ds: "distinct (sig_list s)" by (simp add: distinct_map)
  show "\<exists>e. entries s entry = Some e \<and> it e = It_node n \<and>
              events_since s (snd (Delete entry s)) =
                [Call_hsa_signal_destroy (signal e), Mutex_lock, List_erase (It_node n),
                 Mutex_unlock, Delete_entry entry]"
    using e del by (simp add: events_since_def)
  show "fst (Delete entry s) = Inr ()" using del by simp
  show "sig_list (snd (Delete entry s)) = removeAll (n, entry) (sig_list s)" using del by simp
  show "length (sig_list (snd (Delete entry s))) + 1 = length (sig_list s)"
    using del m ds
    by (simp add: distinct_remove1_removeAll [symmetric] length_remove1)
       (cases "sig_list s"; simp)
  show "entries (snd (Delete entry s)) entry = None" using del by simp
  fix m' q assume o: "(m', q) \<in> set (sig_list s) \<and> (m', q) \<noteq> (n, entry)"
  show "(m', q) \<in> set (sig_list (snd (Delete entry s)))" using del o by simp
  have "q \<noteq> entry"
  proof
    assume "q = entry"
    with o inv obtain e' where "entries s entry = Some e'" "it e' = It_node m'"
      unfolding registry_inv_iff by blast
    with e have "m' = n" by simp
    with o \<open>q = entry\<close> show False by simp
  qed
  then show "entries (snd (Delete entry s)) q = entries s q" using del by simp
qed

theorem registry_iterators_witness:
  "registry_inv example_allocated \<and> 4160 \<notin> dom (entries example_allocated) \<and>
   registry_inv example_two \<and> (0, 4096) \<in> set (sig_list example_two) \<and>
   (1, 4160) \<in> set (sig_list example_two) \<and>
   fst (Delete 4096 example_two) = Inr () \<and>
   sig_list (snd (Delete 4096 example_two)) = [(1, 4160)] \<and>
   entries (snd (Delete 4096 example_two)) 4160 =
     Some \<lparr>it = It_node 1, agent = hsa_agent_t 7, orig = hsa_signal_t 0,
           signal = hsa_signal_t 576, record_p = 8256, handler = 0, arg = 0,
           context_active = False\<rparr> \<and>
   registry_inv (snd (Delete 4096 example_two))"
proof -
  have i1: "registry_inv example_allocated"
    by (simp add: registry_inv_def example_allocated_eq)
  have f: "new_entry example_second \<notin> dom (entries example_allocated)"
    by (simp add: example_allocated_eq example_second_def)
  have i2: "registry_inv example_two"
    using registry_iterators
      [where s = example_allocated and rt = example_second and agent' = "hsa_agent_t 7"
         and orig' = "hsa_signal_t 0", THEN conjunct2, THEN mp, OF i1] f
    unfolding example_two_def by simp
  have m: "(0, 4096) \<in> set (sig_list example_two)"
    and m2: "(1, 4160) \<in> set (sig_list example_two) \<and> (1, 4160) \<noteq> (0, 4096 :: addr)"
    by (simp_all add: example_two_eq)
  note t = registry_iterators [where s = example_two and entry = 4096]
  have a: "fst (Delete 4096 example_two) = Inr ()"
    and b: "sig_list (snd (Delete 4096 example_two)) = removeAll (0, 4096) (sig_list example_two)"
    and c: "entries (snd (Delete 4096 example_two)) 4160 = entries example_two 4160"
    and d: "registry_inv (snd (Delete 4096 example_two))"
    using t [THEN conjunct2, THEN mp, OF i2] m m2 by simp_all
  show ?thesis
    using i1 f i2 m m2 a d
    by (simp add: b c) (simp add: example_two_eq example_second_def)
qed

end
